theory Spec2Isabelle
  imports Main
begin

section \<open>The block model of the editor (script.js)\<close>

text \<open>
  The editor keeps no data array beside the DOM: the document is the ordered list of the
  \<^verbatim>\<open>.block\<close> elements below \<^verbatim>\<open>#editor\<close>. A block element carries
  \<^verbatim>\<open>dataset.type\<close>, \<^verbatim>\<open>dataset.level\<close>, zero or more non-editable marker
  spans (class \<^verbatim>\<open>block-marker\<close>) and one \<^verbatim>\<open>.block-content\<close> element whose
  children are the inline nodes. The class name of a block is always written together with
  its type and is not modelled apart. The level is the number that
  \<^verbatim>\<open>parseInt(block.dataset.level) || 0\<close> yields; script.js writes the attribute with
  \<^verbatim>\<open>'0'\<close>, with a level it has read or counted from leading spaces, with a level
  plus one, and with a positive level minus one, so the model keeps a natural number.
  Characters are code units below 256.
\<close>

datatype block_type = Text | Heading1 | Heading2 | Heading3 | Bullet | Numbered | Quote

datatype marker = BulletMarker | NumberMarker string

datatype inline = TextNode string | BR | Elem string "inline list"

record block =
  btype :: block_type
  level :: nat
  markers :: "marker list"
  content :: "inline list"

type_synonym document = "block list"

subsection \<open>Decimal rendering and \<^verbatim>\<open>Array.prototype.join\<close>\<close>

definition digit_char :: "nat \<Rightarrow> char" where
  "digit_char d = char_of (48 + d)"

function show_nat :: "nat \<Rightarrow> string" where
  "show_nat n = (if n < 10 then [digit_char n] else show_nat (n div 10) @ [digit_char (n mod 10)])"
  by pat_completeness auto
termination
  by (relation "measure id") auto

declare show_nat.simps [simp del]

fun join_dot :: "string list \<Rightarrow> string" where
  "join_dot [] = []"
| "join_dot [x] = x"
| "join_dot (x # y # ys) = x @ ''.'' @ join_dot (y # ys)"

subsection \<open>updateNumberedBlocks (script.js 64-99)\<close>

text \<open>\<^verbatim>\<open>while (counters.length <= level) counters.push(0)\<close>\<close>

definition ensure_counters :: "nat list \<Rightarrow> nat \<Rightarrow> nat list" where
  "ensure_counters cs lv = cs @ replicate (Suc lv - length cs) 0"

text \<open>\<^verbatim>\<open>for (let i = level + 1; i < counters.length; i++) counters[i] = 0\<close>\<close>

definition reset_deeper :: "nat list \<Rightarrow> nat \<Rightarrow> nat list" where
  "reset_deeper cs lv = take (Suc lv) cs @ replicate (length cs - Suc lv) 0"

text \<open>\<^verbatim>\<open>counters.slice(0, level + 1).filter(n => n > 0).join('.') + '.'\<close>\<close>

definition numberString :: "nat list \<Rightarrow> nat \<Rightarrow> string" where
  "numberString cs lv = join_dot (map show_nat (filter (\<lambda>n. 0 < n) (take (Suc lv) cs))) @ ''.''"

text \<open>
  \<^verbatim>\<open>block.querySelector('.number-marker')\<close> is the first number marker of the block;
  its text is replaced, and a block without one is left as it is.
\<close>

fun set_number_marker :: "string \<Rightarrow> marker list \<Rightarrow> marker list" where
  "set_number_marker s [] = []"
| "set_number_marker s (BulletMarker # ms) = BulletMarker # set_number_marker s ms"
| "set_number_marker s (NumberMarker old # ms) = NumberMarker s # ms"

definition step_counters :: "nat list \<Rightarrow> nat \<Rightarrow> nat list" where
  "step_counters cs lv =
     (let c1 = ensure_counters cs lv;
          c2 = c1[lv := Suc (c1 ! lv)]
      in reset_deeper c2 lv)"

fun number_from :: "nat list \<Rightarrow> document \<Rightarrow> document" where
  "number_from cs [] = []"
| "number_from cs (b # bs) =
     (if btype b = Numbered then
        (let cs' = step_counters cs (level b)
         in b\<lparr>markers := set_number_marker (numberString cs' (level b)) (markers b)\<rparr>
              # number_from cs' bs)
      else b # number_from [] bs)"

definition updateNumberedBlocks :: "document \<Rightarrow> document" where
  "updateNumberedBlocks bs = number_from [] bs"

text \<open>
  The numbering pass in the words of the specification: the counters are a function from
  levels to numbers; a numbered block at level \<open>l\<close> increments the counter at \<open>l\<close>,
  zeroes every deeper counter and is labelled with the non-zero counters of the levels
  \<open>0..l\<close>, joined by dots and followed by a dot; any other block zeroes all counters and
  gets no label. The labels depend on the types and levels only.
\<close>

definition spec_bump :: "(nat \<Rightarrow> nat) \<Rightarrow> nat \<Rightarrow> nat \<Rightarrow> nat" where
  "spec_bump c l = (\<lambda>i. if i < l then c i else if i = l then Suc (c l) else 0)"

definition spec_label :: "(nat \<Rightarrow> nat) \<Rightarrow> nat \<Rightarrow> string" where
  "spec_label c l = join_dot (map show_nat (filter (\<lambda>n. n \<noteq> 0) (map c [0..<Suc l]))) @ ''.''"

fun spec_labels :: "(nat \<Rightarrow> nat) \<Rightarrow> (block_type \<times> nat) list \<Rightarrow> string option list" where
  "spec_labels c [] = []"
| "spec_labels c ((t, l) # xs) =
     (if t = Numbered then Some (spec_label (spec_bump c l) l) # spec_labels (spec_bump c l) xs
      else None # spec_labels (\<lambda>i. 0) xs)"

definition write_label :: "block \<Rightarrow> string option \<Rightarrow> block" where
  "write_label b l = (case l of None \<Rightarrow> b
                      | Some s \<Rightarrow> b\<lparr>markers := set_number_marker s (markers b)\<rparr>)"

definition shape :: "document \<Rightarrow> (block_type \<times> nat) list" where
  "shape bs = map (\<lambda>b. (btype b, level b)) bs"

text \<open>The text of the first number marker of a block, if it has one.\<close>

fun number_label :: "marker list \<Rightarrow> string option" where
  "number_label [] = None"
| "number_label (BulletMarker # ms) = number_label ms"
| "number_label (NumberMarker s # ms) = Some s"

definition numbered_block :: "nat \<Rightarrow> block" where
  "numbered_block l = \<lparr>btype = Numbered, level = l, markers = [NumberMarker ''1.''], content = [BR]\<rparr>"

definition text_block :: "block" where
  "text_block = \<lparr>btype = Text, level = 0, markers = [], content = [BR]\<rparr>"


section \<open>Strings, content and selection\<close>

text \<open>
  White space as \<^verbatim>\<open>String.prototype.trim\<close> and the regular expression class
  \<^verbatim>\<open>\s\<close> see it among the code units below 256: tab, line feed, vertical tab, form
  feed, carriage return, space and no-break space.
\<close>

definition is_space :: "char \<Rightarrow> bool" where
  "is_space c \<longleftrightarrow>
     c \<in> set [CHR 0x09, CHR 0x0A, CHR 0x0B, CHR 0x0C, CHR 0x0D, CHR 0x20, CHR 0xA0]"

definition trimStart :: "string \<Rightarrow> string" where
  "trimStart s = dropWhile is_space s"

definition trimEnd :: "string \<Rightarrow> string" where
  "trimEnd s = rev (dropWhile is_space (rev s))"

definition trim :: "string \<Rightarrow> string" where
  "trim s = trimEnd (trimStart s)"

text \<open>\<^verbatim>\<open>Node.textContent\<close>: the text of all text nodes below, in document order.\<close>

fun node_text :: "inline \<Rightarrow> string" where
  "node_text (TextNode s) = s"
| "node_text BR = []"
| "node_text (Elem t ns) = concat (map node_text ns)"

definition textContent :: "inline list \<Rightarrow> string" where
  "textContent ns = concat (map node_text ns)"

text \<open>
  A boundary point inside a content element: \<open>At k\<close> is offset \<open>k\<close> in the node itself
  (a child index for an element, a character offset for a text node), \<open>In i p\<close> is the
  point \<open>p\<close> inside the \<open>i\<close>-th child. Relative to the content element of a block,
  \<open>At 0\<close> is \<^verbatim>\<open>(contentEl, 0)\<close> and \<open>In 0 (At 0)\<close> is
  \<^verbatim>\<open>(contentEl.firstChild, 0)\<close>.
\<close>

datatype pos = At nat | In nat pos

text \<open>
  The selection holds one range, from a point in the content of block \<open>start_block\<close>
  to a point in the content of block \<open>end_block\<close>; blocks are referred to by their
  position in the document.
\<close>

record selection =
  start_block :: nat
  start_pos :: pos
  end_block :: nat
  end_pos :: pos

record editor =
  blocks :: document
  multiBlockSelection :: "nat list"
  sel :: "selection option"

definition caret :: "nat \<Rightarrow> pos \<Rightarrow> selection" where
  "caret i p = \<lparr>start_block = i, start_pos = p, end_block = i, end_pos = p\<rparr>"

definition isCollapsed :: "selection \<Rightarrow> bool" where
  "isCollapsed s \<longleftrightarrow> start_block s = end_block s \<and> start_pos s = end_pos s"

text \<open>getCurrentBlock (script.js 6-21): the block that holds the start of the range.\<close>

definition getCurrentBlock :: "editor \<Rightarrow> nat option" where
  "getCurrentBlock e =
     (case sel e of None \<Rightarrow> None
      | Some s \<Rightarrow> if start_block s < length (blocks e) then Some (start_block s) else None)"

text \<open>getSelectedBlocks (script.js 24-37): the blocks that the range intersects.\<close>

definition getSelectedBlocks :: "editor \<Rightarrow> nat list" where
  "getSelectedBlocks e =
     (case sel e of None \<Rightarrow> []
      | Some s \<Rightarrow> filter (\<lambda>i. start_block s \<le> i \<and> i \<le> end_block s) [0..<length (blocks e)])"

subsection \<open>createBlockElement (script.js 40-61)\<close>

text \<open>
  createBlockElement writes its \<^verbatim>\<open>content\<close> argument into \<^verbatim>\<open>innerHTML\<close>.
  The HTML parser belongs to the browser, not to script.js: the model reads the two kinds
  of string whose parse is a matter of course, \<^verbatim>\<open><br>\<close> and text without the
  characters \<^verbatim>\<open><\<close>, \<^verbatim>\<open>&\<close>, carriage return and NUL (one text node), and
  gives \<open>None\<close> for every other string, which is outside the model.
\<close>

definition plain_text :: "string \<Rightarrow> bool" where
  "plain_text s \<longleftrightarrow> list_all (\<lambda>c. c \<notin> set [CHR ''<'', CHR ''&'', CHR 0x0D, CHR 0x00]) s"

definition read_innerHTML :: "string \<Rightarrow> inline list option" where
  "read_innerHTML s =
     (if s = ''<br>'' then Some [BR]
      else if s = [] then Some []
      else if plain_text s then Some [TextNode s]
      else None)"

definition createBlockElement :: "block_type \<Rightarrow> string \<Rightarrow> nat \<Rightarrow> block option" where
  "createBlockElement t c lv =
     map_option
       (\<lambda>ns. \<lparr>btype = t, level = lv,
              markers = (if t = Bullet then [BulletMarker]
                         else if t = Numbered then [NumberMarker ''1.''] else []),
              content = ns\<rparr>)
       (read_innerHTML (if c = [] then ''<br>'' else c))"

subsection \<open>focusBlock (script.js 102-158)\<close>

fun first_text_index :: "inline list \<Rightarrow> nat option" where
  "first_text_index [] = None"
| "first_text_index (TextNode s # ns) = Some 0"
| "first_text_index (n # ns) = map_option Suc (first_text_index ns)"

text \<open>
  The content and the caret that focusBlock leaves for \<^verbatim>\<open>atEnd = false\<close>: the
  caret goes to offset 0 of the first text node among the children, and an empty text node
  is created when there is none.
\<close>

definition focus_start :: "inline list \<Rightarrow> inline list \<times> pos" where
  "focus_start c =
     (if c = [] then ([TextNode []], In 0 (At 0))
      else if c = [BR] then ([TextNode [], BR], In 0 (At 0))
      else (case first_text_index c of
              Some k \<Rightarrow> (c, In k (At 0))
            | None \<Rightarrow> (TextNode [] # c, In 0 (At 0))))"

text \<open>
  focusBlock runs its body in the next animation frame; the model runs it at once. A
  block reference that is no longer in the document is treated as the null reference.
\<close>

definition focusBlock :: "nat \<Rightarrow> bool \<Rightarrow> editor \<Rightarrow> editor" where
  "focusBlock j atEnd e =
     (if j < length (blocks e) then
        (let b = blocks e ! j in
         if atEnd then e\<lparr>sel := Some (caret j (At (length (content b))))\<rparr>
         else (case focus_start (content b) of
                 (c', p) \<Rightarrow> e\<lparr>blocks := (blocks e)[j := b\<lparr>content := c'\<rparr>],
                                sel := Some (caret j p)\<rparr>))
      else e)"

section \<open>Type conversion commands\<close>

text \<open>
  \<^verbatim>\<open>blocks.forEach(block => ...)\<close> over block references; a reference that is not in
  the document is skipped. Every block of the model has its content element, so the
  \<^verbatim>\<open>if (!contentEl) return\<close> of the callbacks never fires.
\<close>

definition apply_at :: "(block \<Rightarrow> block) \<Rightarrow> nat \<Rightarrow> document \<Rightarrow> document" where
  "apply_at f i d = (if i < length d then d[i := f (d ! i)] else d)"

fun for_each_block :: "(block \<Rightarrow> block) \<Rightarrow> nat list \<Rightarrow> document \<Rightarrow> document" where
  "for_each_block f [] d = d"
| "for_each_block f (i # is) d = for_each_block f is (apply_at f i d)"

text \<open>
  \<^verbatim>\<open>multiBlockSelection.length > 0 ? multiBlockSelection : [getCurrentBlock()]\<close>;
  \<open>None\<close> is the list \<^verbatim>\<open>[null]\<close>, on which every command returns at once.
\<close>

definition blocksToConvert :: "editor \<Rightarrow> nat list option" where
  "blocksToConvert e =
     (if multiBlockSelection e \<noteq> [] then Some (multiBlockSelection e)
      else map_option (\<lambda>i. [i]) (getCurrentBlock e))"

text \<open>
  The frame shared by the five commands: convert every block, renumber, clear the
  multi-block selection, focus the first block at its end.
\<close>

definition convert_blocks :: "(block \<Rightarrow> block) \<Rightarrow> editor \<Rightarrow> editor" where
  "convert_blocks f e =
     (case blocksToConvert e of
        None \<Rightarrow> e
      | Some [] \<Rightarrow> e
      | Some (first # rest) \<Rightarrow>
          focusBlock first True
            (e\<lparr>blocks := updateNumberedBlocks (for_each_block f (first # rest) (blocks e)),
               multiBlockSelection := []\<rparr>))"

text \<open>\<^verbatim>\<open>block.querySelector('.block-marker')\<close> then \<^verbatim>\<open>remove()\<close>: the first marker goes.\<close>

definition remove_marker :: "marker list \<Rightarrow> marker list" where
  "remove_marker ms = drop 1 ms"

text \<open>The command "Normal Text" (script.js 315-344).\<close>

definition normalText_block :: "block \<Rightarrow> block" where
  "normalText_block b = b\<lparr>markers := remove_marker (markers b), btype := Text, level := 0\<rparr>"

definition normalTextAction :: "editor \<Rightarrow> editor" where
  "normalTextAction = convert_blocks normalText_block"

text \<open>The command "Bullet List" (script.js 349-394).\<close>

definition bulletList_block :: "block \<Rightarrow> block" where
  "bulletList_block b =
     (if btype b = Bullet then b\<lparr>btype := Text, markers := remove_marker (markers b)\<rparr>
      else b\<lparr>btype := Bullet, markers := remove_marker (markers b) @ [BulletMarker]\<rparr>)"

definition bulletListAction :: "editor \<Rightarrow> editor" where
  "bulletListAction = convert_blocks bulletList_block"

text \<open>The command "Numbered List" (script.js 399-444).\<close>

definition numberedList_block :: "block \<Rightarrow> block" where
  "numberedList_block b =
     (if btype b = Numbered then b\<lparr>btype := Text, markers := remove_marker (markers b)\<rparr>
      else b\<lparr>btype := Numbered, markers := remove_marker (markers b) @ [NumberMarker ''1.'']\<rparr>)"

definition numberedListAction :: "editor \<Rightarrow> editor" where
  "numberedListAction = convert_blocks numberedList_block"

text \<open>
  applyHeading (script.js 738-769); the commands call it with 1, 2 and 3 only.
\<close>

definition heading_type :: "nat \<Rightarrow> block_type" where
  "heading_type n = (if n = 1 then Heading1 else if n = 2 then Heading2 else Heading3)"

definition applyHeading_block :: "nat \<Rightarrow> block \<Rightarrow> block" where
  "applyHeading_block n b =
     b\<lparr>markers := remove_marker (markers b), btype := heading_type n, level := 0\<rparr>"

definition applyHeading :: "nat \<Rightarrow> editor \<Rightarrow> editor" where
  "applyHeading n = convert_blocks (applyHeading_block n)"

text \<open>applyBlockQuote (script.js 772-810).\<close>

definition applyBlockQuote_block :: "block \<Rightarrow> block" where
  "applyBlockQuote_block b =
     (if btype b = Quote then b\<lparr>btype := Text, level := 0\<rparr>
      else b\<lparr>markers := remove_marker (markers b), btype := Quote, level := 0\<rparr>)"

definition applyBlockQuote :: "editor \<Rightarrow> editor" where
  "applyBlockQuote = convert_blocks applyBlockQuote_block"

section \<open>Tab and Shift+Tab (script.js 3550-3598)\<close>

text \<open>
  \<^verbatim>\<open>selectedBlocks.length > 1 ? selectedBlocks : [getCurrentBlock()]\<close>
\<close>

definition blocksToIndent :: "editor \<Rightarrow> nat list option" where
  "blocksToIndent e =
     (if 1 < length (getSelectedBlocks e) then Some (getSelectedBlocks e)
      else map_option (\<lambda>i. [i]) (getCurrentBlock e))"

definition indent_block :: "block \<Rightarrow> block" where
  "indent_block b = b\<lparr>level := level b + 1\<rparr>"

definition outdent_block :: "block \<Rightarrow> block" where
  "outdent_block b = (if 0 < level b then b\<lparr>level := level b - 1\<rparr> else b)"

definition shift_blocks :: "(block \<Rightarrow> block) \<Rightarrow> editor \<Rightarrow> editor" where
  "shift_blocks f e =
     (case blocksToIndent e of
        None \<Rightarrow> e
      | Some [] \<Rightarrow> e
      | Some (first # rest) \<Rightarrow>
          focusBlock first True
            (e\<lparr>blocks := updateNumberedBlocks (for_each_block f (first # rest) (blocks e))\<rparr>))"

definition tabKey :: "editor \<Rightarrow> editor" where
  "tabKey = shift_blocks indent_block"

definition shiftTabKey :: "editor \<Rightarrow> editor" where
  "shiftTabKey = shift_blocks outdent_block"


section \<open>Keyboard handlers\<close>

text \<open>
  A handler either deals with the event itself (it calls \<^verbatim>\<open>preventDefault\<close>, or the
  event has no default action that edits the document) or returns and leaves the event to
  the browser's own editing, which is not part of script.js.
\<close>

datatype key_result = Handled editor | Native

subsection \<open>Ranges inside a content element\<close>

text \<open>
  The range of the Enter handler runs from the start of the selection to the end of the
  content element. \<open>text_after\<close> is its \<^verbatim>\<open>toString()\<close>, \<open>delete_after\<close> is
  what \<^verbatim>\<open>deleteContents()\<close> leaves: the start text node is cut at the offset, the
  elements around the start keep what lies before it, everything behind goes.
\<close>

fun text_after :: "pos \<Rightarrow> inline list \<Rightarrow> string" where
  "text_after (At k) ns = textContent (drop k ns)"
| "text_after (In i p) ns =
     (if i < length ns then
        (case ns ! i of
           TextNode s \<Rightarrow> (case p of At k \<Rightarrow> drop k s | In j q \<Rightarrow> [])
         | BR \<Rightarrow> []
         | Elem t cs \<Rightarrow> text_after p cs) @ textContent (drop (Suc i) ns)
      else [])"

fun delete_after :: "pos \<Rightarrow> inline list \<Rightarrow> inline list" where
  "delete_after (At k) ns = take k ns"
| "delete_after (In i p) ns =
     (if i < length ns then
        take i ns @
        [case ns ! i of
           TextNode s \<Rightarrow> (case p of At k \<Rightarrow> TextNode (take k s) | In j q \<Rightarrow> TextNode s)
         | BR \<Rightarrow> BR
         | Elem t cs \<Rightarrow> Elem t (delete_after p cs)]
      else ns)"

text \<open>A boundary point that exists in the given children.\<close>

fun valid_pos :: "pos \<Rightarrow> inline list \<Rightarrow> bool" where
  "valid_pos (At k) ns \<longleftrightarrow> k \<le> length ns"
| "valid_pos (In i p) ns \<longleftrightarrow>
     i < length ns \<and>
     (case ns ! i of
        TextNode s \<Rightarrow> (case p of At k \<Rightarrow> k \<le> length s | In j q \<Rightarrow> False)
      | BR \<Rightarrow> p = At 0
      | Elem t cs \<Rightarrow> valid_pos p cs)"

text \<open>The number of characters of the flattened text that lie before a boundary point.\<close>

fun flat_offset :: "pos \<Rightarrow> inline list \<Rightarrow> nat" where
  "flat_offset (At k) ns = length (textContent (take k ns))"
| "flat_offset (In i p) ns =
     length (textContent (take i ns)) +
     (if i < length ns then
        (case ns ! i of
           TextNode s \<Rightarrow> (case p of At k \<Rightarrow> min k (length s) | In j q \<Rightarrow> 0)
         | BR \<Rightarrow> 0
         | Elem t cs \<Rightarrow> flat_offset p cs)
      else 0)"

subsection \<open>Enter (script.js 3352-3411)\<close>

definition insert_after :: "nat \<Rightarrow> block \<Rightarrow> document \<Rightarrow> document" where
  "insert_after i nb bs = take (Suc i) bs @ nb # drop (Suc i) bs"

text \<open>
  The result is \<open>None\<close> only where the text behind the cursor holds markup characters
  and createBlockElement would hand it to the HTML parser (see \<open>read_innerHTML\<close>).
\<close>

definition enterKey :: "editor \<Rightarrow> editor option" where
  "enterKey e =
     (case getCurrentBlock e of
        None \<Rightarrow> Some e
      | Some i \<Rightarrow>
          (let b = blocks e ! i;
               textContent' = textContent (content b)
           in if trim textContent' = [] \<and> (btype b = Bullet \<or> btype b = Numbered) then
                Some (focusBlock i False
                  (e\<lparr>blocks := updateNumberedBlocks
                      ((blocks e)[i := b\<lparr>btype := Text, markers := remove_marker (markers b)\<rparr>])\<rparr>))
              else
                (case sel e of
                   None \<Rightarrow> Some e
                 | Some s \<Rightarrow>
                     (let afterContent = text_after (start_pos s) (content b);
                          kept = delete_after (start_pos s) (content b);
                          b' = b\<lparr>content := (if kept = [] then [BR] else kept)\<rparr>;
                          newType = (if btype b = Bullet \<or> btype b = Numbered then btype b else Text)
                      in case createBlockElement newType afterContent (level b) of
                           None \<Rightarrow> None
                         | Some newBlock \<Rightarrow>
                             (let bs = insert_after i newBlock ((blocks e)[i := b']);
                                  bs' = (if btype b = Numbered \<or> newType = Numbered
                                         then updateNumberedBlocks bs else bs)
                              in Some (focusBlock (Suc i) False (e\<lparr>blocks := bs'\<rparr>)))))))"

subsection \<open>Backspace (script.js 3413-3511)\<close>

text \<open>
  The loop that looks for the caret after a merge: it walks the children of the previous
  content element, counts the lengths of the text nodes among them and stops at the first
  one that reaches the saved length.
\<close>

fun find_caret :: "nat \<Rightarrow> nat \<Rightarrow> nat \<Rightarrow> inline list \<Rightarrow> (nat \<times> nat) option" where
  "find_caret previousLength currentOffset k [] = None"
| "find_caret previousLength currentOffset k (TextNode s # ns) =
     (if currentOffset + length s \<ge> previousLength then Some (k, previousLength - currentOffset)
      else find_caret previousLength (currentOffset + length s) (Suc k) ns)"
| "find_caret previousLength currentOffset k (n # ns) =
     find_caret previousLength currentOffset (Suc k) ns"

definition merge_caret :: "nat \<Rightarrow> inline list \<Rightarrow> inline list \<times> pos" where
  "merge_caret previousLength c =
     (case find_caret previousLength 0 0 c of
        Some (k, off) \<Rightarrow> (c, In k (At off))
      | None \<Rightarrow> (c @ [TextNode []], In (length c) (At 0)))"

text \<open>The content of the previous block after the append (script.js 3458-3467).\<close>

definition merged_content :: "inline list \<Rightarrow> inline list \<Rightarrow> inline list" where
  "merged_content prev cur =
     (let currentContent = textContent cur;
          p = (if prev \<noteq> [] \<and> last prev = BR then butlast prev else prev)
      in if currentContent \<noteq> [] then p @ [TextNode currentContent] else p)"

definition remove_at :: "nat \<Rightarrow> document \<Rightarrow> document" where
  "remove_at i bs = take i bs @ drop (Suc i) bs"

definition mergeWithPrevious :: "nat \<Rightarrow> editor \<Rightarrow> editor" where
  "mergeWithPrevious i e =
     (let cur = blocks e ! i;
          prev = blocks e ! (i - 1);
          previousLength = length (textContent (content prev));
          joined = merged_content (content prev) (content cur);
          bs = updateNumberedBlocks (remove_at i ((blocks e)[i - 1 := prev\<lparr>content := joined\<rparr>]))
      in case merge_caret previousLength joined of
           (c, p) \<Rightarrow> e\<lparr>blocks := bs[i - 1 := (bs ! (i - 1))\<lparr>content := c\<rparr>],
                         sel := Some (caret (i - 1) p)\<rparr>)"

definition backspaceKey :: "editor \<Rightarrow> key_result" where
  "backspaceKey e =
     (case sel e of
        None \<Rightarrow> Native
      | Some s \<Rightarrow>
          if \<not> isCollapsed s then Native
          else (case getCurrentBlock e of
                  None \<Rightarrow> Native
                | Some i \<Rightarrow>
                    (let b = blocks e ! i in
                     if length (blocks e) = 1 \<and> trim (textContent (content b)) = [] then Handled e
                     else if start_pos s = In 0 (At 0) \<and> content b \<noteq> [] then
                       (if i = 0 then Handled e else Handled (mergeWithPrevious i e))
                     else Native)))"

section \<open>deleteBlocks (script.js 813-869) and clearAll (script.js 1175-1197)\<close>










section \<open>Autoformat on a typed space (script.js 4176-4255)\<close>

record input_event =
  isComposing :: bool
  inputType :: string
  data :: string

definition is_digit :: "char \<Rightarrow> bool" where
  "is_digit c \<longleftrightarrow> c \<in> set ''0123456789''"

text \<open>The length of the match of \<^verbatim>\<open>/^(\d{1,2})\./\<close>, if there is one.\<close>

definition numberedMatch :: "string \<Rightarrow> nat option" where
  "numberedMatch t =
     (case t of
        d1 # c2 # r \<Rightarrow>
          if is_digit d1 then
            (if is_digit c2 then (case r of c3 # r' \<Rightarrow> if c3 = CHR ''.'' then Some 3 else None
                                   | [] \<Rightarrow> None)
             else if c2 = CHR ''.'' then Some 2 else None)
          else None
      | _ \<Rightarrow> None)"

definition startsWith :: "string \<Rightarrow> string \<Rightarrow> bool" where
  "startsWith t p \<longleftrightarrow> take (length p) t = p"

text \<open>\<^verbatim>\<open>contentEl.textContent = s\<close>: all children go, one text node comes unless \<open>s\<close> is empty.\<close>

definition set_textContent :: "string \<Rightarrow> inline list" where
  "set_textContent s = (if s = [] then [] else [TextNode s])"

definition beforeinput :: "input_event \<Rightarrow> editor \<Rightarrow> key_result" where
  "beforeinput ev e =
     (if isComposing ev then Native
      else if inputType ev = ''insertText'' \<and> data ev = '' '' then
        (case getCurrentBlock e of
           None \<Rightarrow> Native
         | Some i \<Rightarrow>
             (let b = blocks e ! i;
                  t = textContent (content b)
              in if startsWith t ''>'' then
                   Handled (focusBlock i True
                     (e\<lparr>blocks := (blocks e)[i := b\<lparr>btype := Quote,
                          content := set_textContent (trimStart (drop 1 t))\<rparr>]\<rparr>))
                 else if startsWith t ''-'' \<or> startsWith t ''*'' then
                   Handled (focusBlock i True
                     (e\<lparr>blocks := (blocks e)[i := b\<lparr>btype := Bullet,
                          content := set_textContent (trimStart (drop 1 t)),
                          markers := markers b @ [BulletMarker]\<rparr>]\<rparr>))
                 else (case numberedMatch t of
                         Some prefixLength \<Rightarrow>
                           Handled (focusBlock i True
                             (e\<lparr>blocks := updateNumberedBlocks
                                 ((blocks e)[i := b\<lparr>btype := Numbered,
                                    content := set_textContent (trimStart (drop prefixLength t)),
                                    markers := markers b @ [NumberMarker ''1.'']\<rparr>])\<rparr>))
                       | None \<Rightarrow> Native)))
      else Native)"


section \<open>The markdown bridge\<close>

subsection \<open>markdownToBlocks (script.js 2378-2427)\<close>

text \<open>\<^verbatim>\<open>markdown.split('\n')\<close>\<close>

fun split_lines :: "string \<Rightarrow> string list" where
  "split_lines [] = [[]]"
| "split_lines (c # cs) =
     (if c = CHR 0x0A then [] # split_lines cs
      else (case split_lines cs of [] \<Rightarrow> [[c]] | l # ls \<Rightarrow> (c # l) # ls))"

text \<open>\<^verbatim>\<open>/^[-*]\s+/\<close> and \<^verbatim>\<open>/^\d+\.\s+/\<close> on the trimmed line.\<close>

definition bullet_match :: "string \<Rightarrow> bool" where
  "bullet_match t \<longleftrightarrow>
     (case t of m # w # r \<Rightarrow> (m = CHR ''-'' \<or> m = CHR ''*'') \<and> is_space w | _ \<Rightarrow> False)"

definition numbered_match :: "string \<Rightarrow> bool" where
  "numbered_match t \<longleftrightarrow>
     takeWhile is_digit t \<noteq> [] \<and>
     (case dropWhile is_digit t of d # w # r \<Rightarrow> d = CHR ''.'' \<and> is_space w | _ \<Rightarrow> False)"

text \<open>
  The type, the content and the level with which the loop calls createBlockElement for
  one line.
\<close>

definition parse_line :: "string \<Rightarrow> block_type \<times> string \<times> nat" where
  "parse_line line =
     (let leadingSpaces = length (takeWhile (\<lambda>c. c = CHR '' '') line);
          level' = leadingSpaces div 2;
          trimmedLine = trim line
      in if trimmedLine = [] then (Text, [], 0)
         else if startsWith trimmedLine ''### '' then (Heading3, drop 4 trimmedLine, 0)
         else if startsWith trimmedLine ''## '' then (Heading2, drop 3 trimmedLine, 0)
         else if startsWith trimmedLine ''# '' then (Heading1, drop 2 trimmedLine, 0)
         else if startsWith trimmedLine ''> '' then (Quote, drop 2 trimmedLine, 0)
         else if bullet_match trimmedLine then
           (Bullet, dropWhile is_space (drop 1 trimmedLine), level')
         else if numbered_match trimmedLine then
           (Numbered, dropWhile is_space (drop 1 (dropWhile is_digit trimmedLine)), level')
         else (Text, trimmedLine, 0))"

text \<open>
  The block of one line. The result is \<open>None\<close> only where createBlockElement would
  hand a content with markup characters to the HTML parser.
\<close>

definition line_block :: "string \<Rightarrow> block option" where
  "line_block line = (case parse_line line of (t, c, lv) \<Rightarrow> createBlockElement t c lv)"

definition markdownToBlocks :: "string \<Rightarrow> document option" where
  "markdownToBlocks markdown = those (map line_block (split_lines markdown))"

subsection \<open>htmlToMarkdown (script.js 1474-1552)\<close>

text \<open>
  htmlToMarkdown reads the blocks back from the serialised editor; the model hands it the
  blocks. \<open>numberedCounters\<close> maps a level to its counter, 0 where the object has no
  entry. The markdown that one block adds, and the counters behind it:
\<close>

definition block_markdown :: "(nat \<Rightarrow> nat) \<Rightarrow> block \<Rightarrow> string \<times> (nat \<Rightarrow> nat)" where
  "block_markdown numberedCounters b =
     (let content' = trim (textContent (content b));
          indent = concat (replicate (level b) ''  '')
      in if content' = [] \<and> btype b = Text then ([CHR 0x0A], (\<lambda>l. 0))
         else (case btype b of
                 Heading1 \<Rightarrow> (''# '' @ content' @ [CHR 0x0A, CHR 0x0A], (\<lambda>l. 0))
               | Heading2 \<Rightarrow> (''## '' @ content' @ [CHR 0x0A, CHR 0x0A], (\<lambda>l. 0))
               | Heading3 \<Rightarrow> (''### '' @ content' @ [CHR 0x0A, CHR 0x0A], (\<lambda>l. 0))
               | Bullet \<Rightarrow> (indent @ ''- '' @ content' @ [CHR 0x0A], (\<lambda>l. 0))
               | Numbered \<Rightarrow>
                   (let counters' = (\<lambda>l. if level b < l then 0
                                          else if l = level b then numberedCounters l + 1
                                          else numberedCounters l)
                    in (indent @ show_nat (counters' (level b)) @ ''. '' @ content' @ [CHR 0x0A],
                        counters'))
               | Quote \<Rightarrow> (''> '' @ content' @ [CHR 0x0A, CHR 0x0A], (\<lambda>l. 0))
               | Text \<Rightarrow> (content' @ [CHR 0x0A, CHR 0x0A], (\<lambda>l. 0))))"

fun blocks_markdown :: "(nat \<Rightarrow> nat) \<Rightarrow> document \<Rightarrow> string" where
  "blocks_markdown numberedCounters [] = []"
| "blocks_markdown numberedCounters (b # bs) =
     (case block_markdown numberedCounters b of
        (piece, counters') \<Rightarrow> piece @ blocks_markdown counters' bs)"

text \<open>\<^verbatim>\<open>markdown.replace(/\n{3,}/g, '\n\n')\<close>: a run of three or more line feeds becomes two.\<close>

fun collapse_newlines :: "string \<Rightarrow> string" where
  "collapse_newlines (a # b # c # cs) =
     (if a = CHR 0x0A \<and> b = CHR 0x0A \<and> c = CHR 0x0A then collapse_newlines (b # c # cs)
      else a # collapse_newlines (b # c # cs))"
| "collapse_newlines cs = cs"

definition htmlToMarkdown :: "document \<Rightarrow> string" where
  "htmlToMarkdown bs = trim (collapse_newlines (blocks_markdown (\<lambda>l. 0) bs))"

subsection \<open>What a markdown text says\<close>

text \<open>
  The classification and the content of a line are the type and the trimmed text of the
  block that markdownToBlocks makes of it; a markdown text says the classifications and
  contents of its lines that are not blank, in their order.
\<close>

definition line_item :: "string \<Rightarrow> (block_type \<times> string) option" where
  "line_item l = map_option (\<lambda>b. (btype b, trim (textContent (content b)))) (line_block l)"

definition nonblank_lines :: "string \<Rightarrow> string list" where
  "nonblank_lines s = filter (\<lambda>l. trim l \<noteq> []) (split_lines s)"

definition line_items :: "string \<Rightarrow> (block_type \<times> string) list option" where
  "line_items s = those (map line_item (nonblank_lines s))"

text \<open>
  Markdown of headings, bullets that are not nested and paragraphs: every line is blank or
  is read as a heading, a bullet at level 0 or a text, and the content that the line hands
  to createBlockElement has no markup characters. White space at the ends of a line, a
  carriage return before the line feed among it, is not part of the content.
\<close>

definition line_in_scope :: "string \<Rightarrow> bool" where
  "line_in_scope l \<longleftrightarrow>
     (case parse_line l of
        (t, c, lv) \<Rightarrow> plain_text c
                      \<and> (t \<in> set [Text, Heading1, Heading2, Heading3] \<or> (t = Bullet \<and> lv = 0)))"

definition in_scope :: "string \<Rightarrow> bool" where
  "in_scope markdown \<longleftrightarrow> list_all line_in_scope (split_lines markdown)"

text \<open>
  The marker that htmlToMarkdown writes before the content of a heading, of a quote and of
  a bullet at level 0; a text has none. (A numbered line begins with its ordinal, which a
  classification and a content do not determine; it is not in scope.) The normal line of
  a classification and a content is the marker followed by the content.
\<close>

definition md_prefix :: "block_type \<Rightarrow> string" where
  "md_prefix t = (case t of Heading1 \<Rightarrow> ''# '' | Heading2 \<Rightarrow> ''## '' | Heading3 \<Rightarrow> ''### ''
                  | Bullet \<Rightarrow> ''- '' | Quote \<Rightarrow> ''> '' | Numbered \<Rightarrow> [] | Text \<Rightarrow> [])"

definition normal_line :: "block_type \<times> string \<Rightarrow> string" where
  "normal_line item = md_prefix (fst item) @ snd item"

definition round_trip :: "string \<Rightarrow> string option" where
  "round_trip markdown = map_option htmlToMarkdown (markdownToBlocks markdown)"


section \<open>Example documents\<close>

text \<open>The block that createBlockElement builds for a text without markup.\<close>

definition mk_block :: "block_type \<Rightarrow> nat \<Rightarrow> string \<Rightarrow> block" where
  "mk_block t lv s =
     \<lparr>btype = t, level = lv,
      markers = (if t = Bullet then [BulletMarker]
                 else if t = Numbered then [NumberMarker ''1.''] else []),
      content = (if s = [] then [BR] else [TextNode s])\<rparr>"

text \<open>An editor with a collapsed caret in block \<open>i\<close> and no multi-block selection.\<close>

definition editor_at :: "document \<Rightarrow> nat \<Rightarrow> pos \<Rightarrow> editor" where
  "editor_at d i p = \<lparr>blocks = d, multiBlockSelection = [], sel = Some (caret i p)\<rparr>"





definition x_editor :: editor where
  "x_editor = editor_at [mk_block Text 0 ''x''] 0 (In 0 (At 1))"

definition indented_twice :: editor where
  "indented_twice = tabKey (tabKey (bulletListAction x_editor))"

definition demo_doc :: document where
  "demo_doc = [mk_block Bullet 0 ''a'', mk_block Numbered 0 ''b'', mk_block Quote 0 ''c'',
               mk_block Heading1 0 ''d'', mk_block Text 0 ''e'']"

definition nested_list_doc :: document where
  "nested_list_doc = [mk_block Bullet 2 ''x'', mk_block Numbered 1 ''y'']"

definition bold_merge_editor :: editor where
  "bold_merge_editor =
     editor_at [\<lparr>btype = Text, level = 0, markers = [], content = [Elem ''b'' [TextNode ''ab'']]\<rparr>,
                mk_block Text 0 ''xy''] 1 (In 0 (At 0))"

definition markup_merge_editor :: editor where
  "markup_merge_editor =
     editor_at [mk_block Bullet 0 [],
                \<lparr>btype = Text, level = 0, markers = [],
                 content = [TextNode ''a'', Elem ''b'' [TextNode ''b'', Elem ''i'' [TextNode ''c'']]]\<rparr>]
       1 (In 0 (At 0))"

definition space_bullet_editor :: editor where
  "space_bullet_editor = editor_at [mk_block Bullet 0 '' ''] 0 (In 0 (At 1))"

definition hello_editor :: editor where
  "hello_editor = editor_at [mk_block Numbered 1 ''hello'', mk_block Text 0 ''next''] 0 (In 0 (At 2))"

definition empty_bullet_editor :: editor where
  "empty_bullet_editor =
     editor_at [\<lparr>btype = Bullet, level = 1, markers = [BulletMarker], content = [TextNode [], BR]\<rparr>]
       0 (In 0 (At 0))"

definition space_typed :: input_event where
  "space_typed = \<lparr>isComposing = False, inputType = ''insertText'', data = '' ''\<rparr>"

text \<open>An editor whose only block is a text block with the given text, the caret at its end.\<close>

definition typed :: "string \<Rightarrow> editor" where
  "typed s = editor_at [mk_block Text 0 s] 0 (In 0 (At (length s)))"

definition md_example :: string where
  "md_example = ''# Title'' @ [CHR 0x0D, CHR 0x0A, CHR 0x0D, CHR 0x0A] @ ''Hello  world''
     @ [CHR 0x0A] @ ''* a'' @ [CHR 0x0A] @ ''-   b '' @ [CHR 0x0A, CHR 0x0A, CHR 0x0A, CHR 0x0A]
     @ ''  ##   x'' @ [CHR 0x0D, CHR 0x0A]"

definition md_example_out :: string where
  "md_example_out = ''# Title'' @ [CHR 0x0A, CHR 0x0A] @ ''Hello  world'' @ [CHR 0x0A, CHR 0x0A]
     @ ''- a'' @ [CHR 0x0A] @ ''- b'' @ [CHR 0x0A, CHR 0x0A] @ ''## x''"


section \<open>Auxiliary notions\<close>

text \<open>The numbering pass under the condition of the Enter handler.\<close>

definition renumber_if :: "bool \<Rightarrow> document \<Rightarrow> document" where
  "renumber_if c bs = (if c then updateNumberedBlocks bs else bs)"

text \<open>The classification and content of a line whose block is made from type \<open>t\<close> and content \<open>c\<close>.\<close>

definition make_item :: "block_type \<Rightarrow> string \<Rightarrow> (block_type \<times> string) option" where
  "make_item t c =
     map_option (\<lambda>b. (btype b, trim (textContent (content b)))) (createBlockElement t c 0)"


section \<open>Numbering\<close>

definition represents :: "nat list \<Rightarrow> (nat \<Rightarrow> nat) \<Rightarrow> bool" where
  "represents cs c \<longleftrightarrow> (\<forall>i. c i = (if i < length cs then cs ! i else 0))"

lemma represents_empty: "represents [] (\<lambda>i. 0)"
  by (simp add: represents_def)

lemma length_step_counters: "length (step_counters cs l) = max (length cs) (Suc l)"
  by (auto simp: step_counters_def ensure_counters_def reset_deeper_def Let_def)

lemma step_counters_nth:
  assumes "represents cs c" and "i < length (step_counters cs l)"
  shows "step_counters cs l ! i = spec_bump c l i"
  using assms
  by (auto simp: step_counters_def ensure_counters_def reset_deeper_def Let_def
      represents_def spec_bump_def nth_append)

lemma represents_step:
  assumes "represents cs c"
  shows "represents (step_counters cs l) (spec_bump c l)"
  unfolding represents_def
proof (intro allI)
  fix i
  show "spec_bump c l i = (if i < length (step_counters cs l) then step_counters cs l ! i else 0)"
  proof (cases "i < length (step_counters cs l)")
    case True
    then show ?thesis using step_counters_nth [OF assms True] by simp
  next
    case False
    then have "l < i" and "length cs \<le> i" by (auto simp: length_step_counters)
    then show ?thesis using False by (simp add: spec_bump_def)
  qed
qed

lemma take_step_counters:
  assumes "represents cs c"
  shows "take (Suc l) (step_counters cs l) = map (spec_bump c l) [0..<Suc l]"
proof (rule nth_equalityI)
  show "length (take (Suc l) (step_counters cs l)) = length (map (spec_bump c l) [0..<Suc l])"
    by (simp add: length_step_counters)
next
  fix i assume "i < length (take (Suc l) (step_counters cs l))"
  then have i: "i < Suc l" and i': "i < length (step_counters cs l)" by simp_all
  have "map (spec_bump c l) [0..<Suc l] ! i = spec_bump c l i"
    using i by (metis add_0 length_upt minus_nat.diff_0 nth_map nth_upt)
  then show "take (Suc l) (step_counters cs l) ! i = map (spec_bump c l) [0..<Suc l] ! i"
    using step_counters_nth [OF assms i'] i by simp
qed

lemma numberString_step:
  assumes "represents cs c"
  shows "numberString (step_counters cs l) l = spec_label (spec_bump c l) l"
  by (simp only: numberString_def spec_label_def take_step_counters [OF assms] neq0_conv)

lemma number_from_spec:
  "represents cs c \<Longrightarrow>
   number_from cs bs = map2 write_label bs (spec_labels c (shape bs))"
proof (induction bs arbitrary: cs c)
  case Nil
  then show ?case by (simp add: shape_def)
next
  case (Cons b bs)
  show ?case
  proof (cases "btype b = Numbered")
    case True
    have r: "represents (step_counters cs (level b)) (spec_bump c (level b))"
      by (rule represents_step [OF Cons.prems])
    show ?thesis
      using True Cons.IH [OF r] numberString_step [OF Cons.prems, of "level b"]
      by (simp add: shape_def write_label_def Let_def)
  next
    case False
    then show ?thesis
      using Cons.IH [OF represents_empty]
      by (simp add: shape_def write_label_def)
  qed
qed

lemma shape_number_from: "shape (number_from cs bs) = shape bs"
  by (induction bs arbitrary: cs) (simp_all add: shape_def Let_def)

lemma set_number_marker_idem:
  "set_number_marker s (set_number_marker t ms) = set_number_marker s ms"
  by (induction t ms rule: set_number_marker.induct) simp_all

lemma write_label_idem: "write_label (write_label b l) l = write_label b l"
  by (cases l) (simp_all add: write_label_def set_number_marker_idem)

lemma map2_write_label_idem:
  "map2 write_label (map2 write_label bs ls) ls = map2 write_label bs ls"
proof (induction bs arbitrary: ls)
  case Nil
  then show ?case by simp
next
  case (Cons b bs)
  then show ?case by (cases ls) (simp_all add: write_label_idem)
qed

lemma updateNumberedBlocks_spec:
  "updateNumberedBlocks bs = map2 write_label bs (spec_labels (\<lambda>i. 0) (shape bs))"
  unfolding updateNumberedBlocks_def by (rule number_from_spec [OF represents_empty])

lemma shape_updateNumberedBlocks: "shape (updateNumberedBlocks bs) = shape bs"
  by (simp add: updateNumberedBlocks_def shape_number_from)

lemma updateNumberedBlocks_idem:
  "updateNumberedBlocks (updateNumberedBlocks bs) = updateNumberedBlocks bs"
proof -
  have "updateNumberedBlocks (updateNumberedBlocks bs)
        = map2 write_label (updateNumberedBlocks bs) (spec_labels (\<lambda>i. 0) (shape bs))"
    by (subst updateNumberedBlocks_spec) (simp only: shape_updateNumberedBlocks)
  also have "\<dots> = updateNumberedBlocks bs"
    by (simp only: updateNumberedBlocks_spec map2_write_label_idem)
  finally show ?thesis .
qed

lemma length_updateNumberedBlocks: "length (updateNumberedBlocks bs) = length bs"
  using arg_cong [OF shape_updateNumberedBlocks, of length bs] by (simp add: shape_def)

text \<open>
  Claim C4. The numbering pass is a pure function of the ordered block list: every block
  is returned unchanged except that the first number marker of a numbered block is given
  the label of the specification (increment the counter at the block's level, zero the
  deeper counters, join the non-zero counters of levels 0 to the block's level with dots
  and end with a dot; any other block zeroes all counters), a label that depends on the
  types and levels only. The sequence numbered level 0, numbered level 1, text, numbered
  level 0 is labelled "1.", "1.1.", no label, "1.", and running the pass again changes
  nothing.
\<close>

theorem C4_numbering_pass:
  "updateNumberedBlocks bs = map2 write_label bs (spec_labels (\<lambda>i. 0) (shape bs))
   \<and> map (\<lambda>b. number_label (markers b))
         (updateNumberedBlocks [numbered_block 0, numbered_block 1, text_block, numbered_block 0])
       = [Some ''1.'', Some ''1.1.'', None, Some ''1.'']
   \<and> updateNumberedBlocks (updateNumberedBlocks bs) = updateNumberedBlocks bs"
proof (intro conjI)
  show "updateNumberedBlocks bs = map2 write_label bs (spec_labels (\<lambda>i. 0) (shape bs))"
    by (rule updateNumberedBlocks_spec)
  show "map (\<lambda>b. number_label (markers b))
         (updateNumberedBlocks [numbered_block 0, numbered_block 1, text_block, numbered_block 0])
       = [Some ''1.'', Some ''1.1.'', None, Some ''1.'']"
    by code_simp
  show "updateNumberedBlocks (updateNumberedBlocks bs) = updateNumberedBlocks bs"
    by (rule updateNumberedBlocks_idem)
qed

section \<open>Block lists, numbering and focus\<close>

lemma length_apply_at: "length (apply_at f i d) = length d"
  by (simp add: apply_at_def)

lemma length_for_each_block: "length (for_each_block f is d) = length d"
  by (induction "is" arbitrary: d) (simp_all add: length_apply_at)

lemma for_each_block_nth:
  "distinct is \<Longrightarrow> i < length d \<Longrightarrow>
   for_each_block f is d ! i = (if i \<in> set is then f (d ! i) else d ! i)"
proof (induction "is" arbitrary: d)
  case Nil
  then show ?case by simp
next
  case (Cons j js)
  have len: "i < length (apply_at f j d)" using Cons.prems by (simp add: length_apply_at)
  have "for_each_block f (j # js) d ! i = for_each_block f js (apply_at f j d) ! i" by simp
  also have "\<dots> = (if i \<in> set js then f (apply_at f j d ! i) else apply_at f j d ! i)"
    using Cons.IH [OF _ len] Cons.prems by simp
  also have "\<dots> = (if i \<in> set (j # js) then f (d ! i) else d ! i)"
    using Cons.prems by (auto simp: apply_at_def nth_list_update)
  finally show ?case .
qed

lemma number_from_nth_other:
  "i < length bs \<Longrightarrow> btype (bs ! i) \<noteq> Numbered \<Longrightarrow> number_from cs bs ! i = bs ! i"
proof (induction bs arbitrary: cs i)
  case Nil
  then show ?case by simp
next
  case (Cons b bs)
  then show ?case by (cases i) (simp_all add: Let_def)
qed

lemma updateNumberedBlocks_nth_other:
  "i < length bs \<Longrightarrow> btype (bs ! i) \<noteq> Numbered \<Longrightarrow> updateNumberedBlocks bs ! i = bs ! i"
  by (simp add: updateNumberedBlocks_def number_from_nth_other)

lemma shape_nth: "i < length bs \<Longrightarrow> shape bs ! i = (btype (bs ! i), level (bs ! i))"
  by (simp add: shape_def)

lemma updateNumberedBlocks_level:
  assumes "i < length bs"
  shows "level (updateNumberedBlocks bs ! i) = level (bs ! i)"
    and "btype (updateNumberedBlocks bs ! i) = btype (bs ! i)"
proof -
  have i': "i < length (updateNumberedBlocks bs)" using assms by (simp add: length_updateNumberedBlocks)
  have "shape (updateNumberedBlocks bs) ! i = shape bs ! i"
    by (simp only: shape_updateNumberedBlocks)
  then show "level (updateNumberedBlocks bs ! i) = level (bs ! i)"
    and "btype (updateNumberedBlocks bs ! i) = btype (bs ! i)"
    using assms i' by (simp_all add: shape_nth)
qed

lemma content_number_from: "map content (number_from cs bs) = map content bs"
  by (induction bs arbitrary: cs) (simp_all add: Let_def)

lemma updateNumberedBlocks_content:
  assumes "i < length bs"
  shows "content (updateNumberedBlocks bs ! i) = content (bs ! i)"
proof -
  have "map content (updateNumberedBlocks bs) ! i = map content bs ! i"
    by (simp only: updateNumberedBlocks_def content_number_from)
  then show ?thesis using assms by (simp add: length_updateNumberedBlocks)
qed

lemma blocks_focusBlock_end: "blocks (focusBlock j True e) = blocks e"
  by (simp add: focusBlock_def Let_def)

lemma multi_focusBlock: "multiBlockSelection (focusBlock j a e) = multiBlockSelection e"
  by (simp add: focusBlock_def Let_def split: prod.splits)

lemma sel_focusBlock_end:
  "j < length (blocks e) \<Longrightarrow> sel (focusBlock j True e) = Some (caret j (At (length (content (blocks e ! j)))))"
  by (simp add: focusBlock_def Let_def)

lemma distinct_getSelectedBlocks: "distinct (getSelectedBlocks e)"
  by (simp add: getSelectedBlocks_def split: option.splits)

lemma distinct_blocksToIndent: "blocksToIndent e = Some is \<Longrightarrow> distinct is"
  by (auto simp: blocksToIndent_def distinct_getSelectedBlocks split: if_splits)

lemma blocks_shift_blocks:
  assumes "blocksToIndent e = Some is"
  shows "blocks (shift_blocks f e) = updateNumberedBlocks (for_each_block f is (blocks e))"
proof (cases "is")
  case Nil
  then have "1 < length (getSelectedBlocks e) \<or> False" using assms
    by (auto simp: blocksToIndent_def split: if_splits)
  then show ?thesis using assms Nil by (auto simp: blocksToIndent_def split: if_splits)
next
  case (Cons a list)
  then show ?thesis using assms by (simp add: shift_blocks_def blocks_focusBlock_end)
qed

lemma shift_blocks_level:
  assumes "blocksToIndent e = Some is" and "i < length (blocks e)"
  shows "level (blocks (shift_blocks f e) ! i)
         = (if i \<in> set is then level (f (blocks e ! i)) else level (blocks e ! i))"
proof -
  have d: "distinct is" by (rule distinct_blocksToIndent [OF assms(1)])
  have "level (blocks (shift_blocks f e) ! i) = level (for_each_block f is (blocks e) ! i)"
    using assms(2) by (simp add: blocks_shift_blocks [OF assms(1)] updateNumberedBlocks_level length_for_each_block)
  then show ?thesis using for_each_block_nth [OF d assms(2), of f] by simp
qed


text \<open>
  Claim C9. For every block that Tab or Shift+Tab affects (the blocks of a selection that
  spans more than one block, else the block of the caret), Tab raises the level by exactly
  one and Shift+Tab lowers it by exactly one unless it is 0, where it stays; the other
  blocks keep their level. A block at level 0 that is indented twice is at level 2, and
  after three outdents it is at level 0.
\<close>

theorem C9_indent_outdent:
  assumes "blocksToIndent e = Some is" and "i < length (blocks e)"
  shows "level (blocks (tabKey e) ! i)
           = (if i \<in> set is then level (blocks e ! i) + 1 else level (blocks e ! i))
       \<and> level (blocks (shiftTabKey e) ! i)
           = (if i \<in> set is
              then (if level (blocks e ! i) = 0 then 0 else level (blocks e ! i) - 1)
              else level (blocks e ! i))
       \<and> map level (blocks indented_twice) = [2]
       \<and> map level (blocks (shiftTabKey (shiftTabKey (shiftTabKey indented_twice)))) = [0]"
proof (intro conjI)
  show "level (blocks (tabKey e) ! i)
           = (if i \<in> set is then level (blocks e ! i) + 1 else level (blocks e ! i))"
    unfolding tabKey_def by (simp add: shift_blocks_level [OF assms] indent_block_def)
  show "level (blocks (shiftTabKey e) ! i)
           = (if i \<in> set is
              then (if level (blocks e ! i) = 0 then 0 else level (blocks e ! i) - 1)
              else level (blocks e ! i))"
    unfolding shiftTabKey_def by (simp add: shift_blocks_level [OF assms] outdent_block_def)
  show "map level (blocks indented_twice) = [2]"
    by code_simp
  show "map level (blocks (shiftTabKey (shiftTabKey (shiftTabKey indented_twice)))) = [0]"
    by code_simp
qed

theorem C9_indent_outdent_witness:
  "blocksToIndent x_editor = Some [0]
   \<and> level (blocks x_editor ! 0) = 0
   \<and> level (blocks (tabKey x_editor) ! 0) = 1
   \<and> level (blocks (shiftTabKey x_editor) ! 0) = 0"
proof -
  have h: "blocksToIndent x_editor = Some [0]" by code_simp
  have l: "0 < length (blocks x_editor)" by code_simp
  have z: "level (blocks x_editor ! 0) = 0" by code_simp
  show ?thesis using C9_indent_outdent [OF h l] h z by simp
qed

section \<open>Type conversion\<close>

lemma blocksToConvert_nonempty: "blocksToConvert e = Some is \<Longrightarrow> is \<noteq> []"
  by (auto simp: blocksToConvert_def split: if_splits)

lemma blocks_convert_blocks:
  assumes "blocksToConvert e = Some is"
  shows "blocks (convert_blocks f e) = updateNumberedBlocks (for_each_block f is (blocks e))"
proof (cases "is")
  case Nil
  then show ?thesis using blocksToConvert_nonempty [OF assms] by simp
next
  case (Cons a list)
  then show ?thesis using assms by (simp add: convert_blocks_def blocks_focusBlock_end)
qed

lemma convert_blocks_nth:
  assumes "blocksToConvert e = Some is" and "distinct is" and "i \<in> set is"
    and "i < length (blocks e)" and "btype (f (blocks e ! i)) \<noteq> Numbered"
  shows "blocks (convert_blocks f e) ! i = f (blocks e ! i)"
proof -
  have n: "for_each_block f is (blocks e) ! i = f (blocks e ! i)"
    using for_each_block_nth [OF assms(2) assms(4), of f] assms(3) by simp
  have "updateNumberedBlocks (for_each_block f is (blocks e)) ! i
        = for_each_block f is (blocks e) ! i"
    by (rule updateNumberedBlocks_nth_other) (simp_all add: length_for_each_block assms(4) n assms(5))
  then show ?thesis by (simp add: blocks_convert_blocks [OF assms(1)] n)
qed

lemma convert_blocks_btype:
  assumes "blocksToConvert e = Some is" and "distinct is" and "i \<in> set is"
    and "i < length (blocks e)"
  shows "btype (blocks (convert_blocks f e) ! i) = btype (f (blocks e ! i))"
proof -
  have n: "for_each_block f is (blocks e) ! i = f (blocks e ! i)"
    using for_each_block_nth [OF assms(2) assms(4), of f] assms(3) by simp
  show ?thesis
    by (simp add: blocks_convert_blocks [OF assms(1)] updateNumberedBlocks_level(2)
        length_for_each_block assms(4) n)
qed

lemma convert_blocks_single_state:
  assumes "blocksToConvert e = Some [i]" and "i < length (blocks e)"
  shows "blocksToConvert (convert_blocks f e) = Some [i]"
proof -
  have len: "length (updateNumberedBlocks (apply_at f i (blocks e))) = length (blocks e)"
    by (simp add: length_updateNumberedBlocks length_apply_at)
  show ?thesis
    using assms len
    by (simp add: convert_blocks_def blocksToConvert_def getCurrentBlock_def
        focusBlock_def Let_def caret_def)
qed

lemma bullet_round_trip:
  assumes "blocksToConvert e = Some [i]" and "i < length (blocks e)"
    and "btype (blocks e ! i) = Text" and "markers (blocks e ! i) = []"
  shows "blocks (bulletListAction (bulletListAction e)) ! i = blocks e ! i"
proof -
  let ?e1 = "convert_blocks bulletList_block e"
  have b1: "blocks ?e1 ! i = bulletList_block (blocks e ! i)"
    by (rule convert_blocks_nth [OF assms(1)]) (simp_all add: assms bulletList_block_def)
  have s1: "blocksToConvert ?e1 = Some [i]"
    by (rule convert_blocks_single_state [OF assms(1,2)])
  have l1: "i < length (blocks ?e1)"
    using assms(2)
    by (simp add: blocks_convert_blocks [OF assms(1)] length_updateNumberedBlocks length_apply_at)
  have "blocks (convert_blocks bulletList_block ?e1) ! i = bulletList_block (blocks ?e1 ! i)"
    by (rule convert_blocks_nth [OF s1 _ _ l1]) (simp_all add: b1 assms bulletList_block_def)
  then show ?thesis
    by (simp add: bulletListAction_def b1 bulletList_block_def assms remove_marker_def)
qed

text \<open>
  Claim C6, as the code has it. For every block that a command converts: Bullet List on a
  bullet block and Numbered List on a numbered block give a text block without its first
  marker span (so a block with one marker has none left), and Block Quote on a quote block
  gives a text block at level 0. The heading commands do not toggle: Heading n on a block
  that is heading n already leaves it heading n. Bullet List twice on a text block without
  markers gives the block back as it was, content included.
\<close>

theorem C6_toggle:
  assumes "blocksToConvert e = Some ts" and "distinct ts" and "i \<in> set ts"
    and "i < length (blocks e)"
  shows "(btype (blocks e ! i) = Bullet \<longrightarrow>
            blocks (bulletListAction e) ! i
              = (blocks e ! i)\<lparr>btype := Text, markers := drop 1 (markers (blocks e ! i))\<rparr>)
       \<and> (btype (blocks e ! i) = Numbered \<longrightarrow>
            blocks (numberedListAction e) ! i
              = (blocks e ! i)\<lparr>btype := Text, markers := drop 1 (markers (blocks e ! i))\<rparr>)
       \<and> (btype (blocks e ! i) = Quote \<longrightarrow>
            blocks (applyBlockQuote e) ! i = (blocks e ! i)\<lparr>btype := Text, level := 0\<rparr>)
       \<and> (btype (blocks e ! i) = heading_type n \<longrightarrow>
            btype (blocks (applyHeading n e) ! i) = heading_type n)
       \<and> (ts = [i] \<and> btype (blocks e ! i) = Text \<and> markers (blocks e ! i) = [] \<longrightarrow>
            blocks (bulletListAction (bulletListAction e)) ! i = blocks e ! i)"
proof (intro conjI impI)
  assume "btype (blocks e ! i) = Bullet"
  then show "blocks (bulletListAction e) ! i
              = (blocks e ! i)\<lparr>btype := Text, markers := drop 1 (markers (blocks e ! i))\<rparr>"
    unfolding bulletListAction_def
    by (subst convert_blocks_nth [OF assms]) (simp_all add: bulletList_block_def remove_marker_def)
next
  assume "btype (blocks e ! i) = Numbered"
  then show "blocks (numberedListAction e) ! i
              = (blocks e ! i)\<lparr>btype := Text, markers := drop 1 (markers (blocks e ! i))\<rparr>"
    unfolding numberedListAction_def
    by (subst convert_blocks_nth [OF assms]) (simp_all add: numberedList_block_def remove_marker_def)
next
  assume "btype (blocks e ! i) = Quote"
  then show "blocks (applyBlockQuote e) ! i = (blocks e ! i)\<lparr>btype := Text, level := 0\<rparr>"
    unfolding applyBlockQuote_def
    by (subst convert_blocks_nth [OF assms]) (simp_all add: applyBlockQuote_block_def)
next
  assume "btype (blocks e ! i) = heading_type n"
  then show "btype (blocks (applyHeading n e) ! i) = heading_type n"
    unfolding applyHeading_def
    by (simp add: convert_blocks_btype [OF assms] applyHeading_block_def)
next
  assume a: "ts = [i] \<and> btype (blocks e ! i) = Text \<and> markers (blocks e ! i) = []"
  show "blocks (bulletListAction (bulletListAction e)) ! i = blocks e ! i"
    by (rule bullet_round_trip) (use a assms in simp_all)
qed

theorem C6_toggle_witness:
  "btype (demo_doc ! 0) = Bullet
   \<and> blocks (bulletListAction (editor_at demo_doc 0 (At 0))) ! 0 = mk_block Text 0 ''a''
   \<and> btype (demo_doc ! 1) = Numbered
   \<and> blocks (numberedListAction (editor_at demo_doc 1 (At 0))) ! 1 = mk_block Text 0 ''b''
   \<and> btype (demo_doc ! 2) = Quote
   \<and> blocks (applyBlockQuote (editor_at demo_doc 2 (At 0))) ! 2 = mk_block Text 0 ''c''
   \<and> btype (demo_doc ! 3) = heading_type 1
   \<and> btype (blocks (applyHeading 1 (editor_at demo_doc 3 (At 0))) ! 3) = Heading1
   \<and> btype (demo_doc ! 4) = Text \<and> markers (demo_doc ! 4) = []
   \<and> blocks (bulletListAction (bulletListAction (editor_at demo_doc 4 (At 0)))) ! 4
       = mk_block Text 0 ''e''"
proof -
  let ?E = "\<lambda>k. editor_at demo_doc k (At 0)"
  have c: "blocksToConvert (?E 0) = Some [0]" "blocksToConvert (?E 1) = Some [1]"
    "blocksToConvert (?E 2) = Some [2]" "blocksToConvert (?E 3) = Some [3]"
    "blocksToConvert (?E 4) = Some [4]"
    by code_simp+
  have l: "0 < length (blocks (?E 0))" "1 < length (blocks (?E 1))" "2 < length (blocks (?E 2))"
    "3 < length (blocks (?E 3))" "4 < length (blocks (?E 4))"
    by code_simp+
  have t0: "btype (blocks (?E 0) ! 0) = Bullet" by code_simp
  have t1: "btype (blocks (?E 1) ! 1) = Numbered" by code_simp
  have t2: "btype (blocks (?E 2) ! 2) = Quote" by code_simp
  have t3: "btype (blocks (?E 3) ! 3) = heading_type 1" by code_simp
  have t4: "[4] = [4::nat] \<and> btype (blocks (?E 4) ! 4) = Text \<and> markers (blocks (?E 4) ! 4) = []"
    by code_simp
  have r0: "blocks (bulletListAction (?E 0)) ! 0
            = (blocks (?E 0) ! 0)\<lparr>btype := Text, markers := drop 1 (markers (blocks (?E 0) ! 0))\<rparr>"
    using C6_toggle [OF c(1) _ _ l(1), where n = 1] t0 by simp
  have r1: "blocks (numberedListAction (?E 1)) ! 1
            = (blocks (?E 1) ! 1)\<lparr>btype := Text, markers := drop 1 (markers (blocks (?E 1) ! 1))\<rparr>"
    using C6_toggle [OF c(2) _ _ l(2), where n = 1] t1 by simp
  have r2: "blocks (applyBlockQuote (?E 2)) ! 2 = (blocks (?E 2) ! 2)\<lparr>btype := Text, level := 0\<rparr>"
    using C6_toggle [OF c(3) _ _ l(3), where n = 1] t2 by simp
  have r3: "btype (blocks (applyHeading 1 (?E 3)) ! 3) = heading_type 1"
    using C6_toggle [OF c(4) _ _ l(4), where n = 1] t3 by simp
  have r4: "blocks (bulletListAction (bulletListAction (?E 4))) ! 4 = blocks (?E 4) ! 4"
    using C6_toggle [OF c(5) _ _ l(5), where n = 1] t4 by simp
  have v: "(blocks (?E 0) ! 0)\<lparr>btype := Text, markers := drop 1 (markers (blocks (?E 0) ! 0))\<rparr>
             = mk_block Text 0 ''a''"
    "(blocks (?E 1) ! 1)\<lparr>btype := Text, markers := drop 1 (markers (blocks (?E 1) ! 1))\<rparr>
             = mk_block Text 0 ''b''"
    "(blocks (?E 2) ! 2)\<lparr>btype := Text, level := 0\<rparr> = mk_block Text 0 ''c''"
    "heading_type 1 = Heading1"
    "blocks (?E 4) ! 4 = mk_block Text 0 ''e''"
    by code_simp+
  have d: "btype (demo_doc ! 0) = Bullet" "btype (demo_doc ! 1) = Numbered"
    "btype (demo_doc ! 2) = Quote" "btype (demo_doc ! 3) = heading_type 1"
    "btype (demo_doc ! 4) = Text" "markers (demo_doc ! 4) = []"
    by code_simp+
  show ?thesis
    by (intro conjI) (simp_all only: d r0 r1 r2 r3 r4 v)
qed

text \<open>
  The claim as stated fails for the heading commands: the target of Heading 1 equals the
  type of a heading-1 block, and the block is not converted to text.
\<close>

theorem C6_heading_counterexample:
  "btype (blocks (editor_at demo_doc 3 (At 0)) ! 3) = heading_type 1
   \<and> btype (blocks (applyHeading 1 (editor_at demo_doc 3 (At 0))) ! 3) \<noteq> Text"
  by code_simp

text \<open>
  Claim C7 at a nested list item. Bullet List on a bullet block at level 2 and Numbered
  List on a numbered block at level 1 give text blocks without marker that keep the levels
  2 and 1; the claim says these conversions to text reset the level to 0, as the command
  Normal Text does on the same block.
\<close>

theorem C7_toggle_off_keeps_level:
  "blocks (bulletListAction (editor_at nested_list_doc 0 (At 0)))
     = [\<lparr>btype = Text, level = 2, markers = [], content = [TextNode ''x'']\<rparr>,
        mk_block Numbered 1 ''y'']
   \<and> blocks (numberedListAction (editor_at nested_list_doc 1 (At 0)))
     = [mk_block Bullet 2 ''x'',
        \<lparr>btype = Text, level = 1, markers = [], content = [TextNode ''y'']\<rparr>]
   \<and> blocks (normalTextAction (editor_at nested_list_doc 0 (At 0)))
     = [\<lparr>btype = Text, level = 0, markers = [], content = [TextNode ''x'']\<rparr>,
        mk_block Numbered 1 ''y'']"
  by code_simp

section \<open>Removing blocks\<close>


lemma createBlockElement_empty:
  "createBlockElement Text [] 0 = Some \<lparr>btype = Text, level = 0, markers = [], content = [BR]\<rparr>"
  by (simp add: createBlockElement_def read_innerHTML_def)

















lemma trim_Nil: "trim [] = []"
  by (simp add: trim_def trimStart_def trimEnd_def)




section \<open>Merging with Backspace\<close>

lemma textContent_append: "textContent (xs @ ys) = textContent xs @ textContent ys"
  by (simp add: textContent_def)

lemma textContent_butlast_BR:
  assumes "ns \<noteq> []" and "last ns = BR"
  shows "textContent (butlast ns) = textContent ns"
proof -
  have "ns = butlast ns @ [BR]" using assms by (metis append_butlast_last_id)
  then have "textContent ns = textContent (butlast ns) @ textContent [BR]"
    by (metis textContent_append)
  then show ?thesis by (simp add: textContent_def)
qed

lemma textContent_merged_content:
  "textContent (merged_content prev cur) = textContent prev @ textContent cur"
proof (cases "prev \<noteq> [] \<and> last prev = BR")
  case True
  then show ?thesis
    by (simp add: merged_content_def Let_def textContent_append textContent_butlast_BR)
       (simp add: textContent_def)
next
  case False
  then show ?thesis
    by (auto simp: merged_content_def Let_def textContent_append) (simp_all add: textContent_def)
qed

lemma merge_caret_content:
  "fst (merge_caret n c) = c \<or> fst (merge_caret n c) = c @ [TextNode []]"
  by (simp add: merge_caret_def split: option.splits prod.splits)

lemma textContent_merge_caret: "textContent (fst (merge_caret n c)) = textContent c"
  using merge_caret_content [of n c] by (auto simp: textContent_def)

lemma backspaceKey_merge:
  assumes "sel e = Some s" and "isCollapsed s" and "getCurrentBlock e = Some i" and "0 < i"
    and "start_pos s = In 0 (At 0)" and "content (blocks e ! i) \<noteq> []"
  shows "backspaceKey e = Handled (mergeWithPrevious i e)"
proof -
  have "i < length (blocks e)"
    using assms(1,3) by (simp add: getCurrentBlock_def split: if_splits)
  then have "length (blocks e) \<noteq> 1" using assms(4) by simp
  then show ?thesis using assms by (simp add: backspaceKey_def)
qed

lemma content_mergeWithPrevious:
  assumes "0 < i" and "i < length (blocks e)"
  shows "content (blocks (mergeWithPrevious i e) ! (i - 1))
         = fst (merge_caret (length (textContent (content (blocks e ! (i - 1)))))
                  (merged_content (content (blocks e ! (i - 1))) (content (blocks e ! i))))"
proof -
  have "i - 1 < length (updateNumberedBlocks (remove_at i ((blocks e)
          [i - 1 := (blocks e ! (i - 1))\<lparr>content := merged_content (content (blocks e ! (i - 1))) (content (blocks e ! i))\<rparr>])))"
    using assms by (simp add: length_updateNumberedBlocks remove_at_def)
  then show ?thesis
    by (simp add: mergeWithPrevious_def Let_def split: prod.splits)
qed


text \<open>
  Claim C10. In every merge (Backspace with a collapsed caret at offset 0 of the first
  child of a block that has a previous block) the previous block receives the flattened
  text of the current block as one new text node behind its own children, from which a
  trailing line break has been removed first; no element of the current block is carried
  over, and an empty text appends no node. The text of the previous block afterwards is
  its old text followed by the text of the current block. (Placing the caret may add one
  empty text node at the end.)
\<close>

theorem C10_merge_plain_text:
  assumes "sel e = Some s" and "isCollapsed s" and "getCurrentBlock e = Some i" and "0 < i"
    and "start_pos s = In 0 (At 0)" and "content (blocks e ! i) \<noteq> []"
  shows "\<exists>e'. backspaceKey e = Handled e' \<and>
           (let prev = content (blocks e ! (i - 1));
                t = textContent (content (blocks e ! i));
                joined = (if prev \<noteq> [] \<and> last prev = BR then butlast prev else prev)
                         @ (if t = [] then [] else [TextNode t])
            in (content (blocks e' ! (i - 1)) = joined
                \<or> content (blocks e' ! (i - 1)) = joined @ [TextNode []])
               \<and> textContent (content (blocks e' ! (i - 1))) = textContent prev @ t)"
proof -
  have len: "i < length (blocks e)"
    using assms(1,3) by (simp add: getCurrentBlock_def split: if_splits)
  let ?prev = "content (blocks e ! (i - 1))"
  let ?cur = "content (blocks e ! i)"
  have j: "merged_content ?prev ?cur
           = (if ?prev \<noteq> [] \<and> last ?prev = BR then butlast ?prev else ?prev)
             @ (if textContent ?cur = [] then [] else [TextNode (textContent ?cur)])"
    by (simp add: merged_content_def Let_def)
  have c: "content (blocks (mergeWithPrevious i e) ! (i - 1))
           = fst (merge_caret (length (textContent ?prev)) (merged_content ?prev ?cur))"
    by (rule content_mergeWithPrevious [OF assms(4) len])
  have t: "textContent (content (blocks (mergeWithPrevious i e) ! (i - 1)))
           = textContent ?prev @ textContent ?cur"
    by (simp only: c textContent_merge_caret textContent_merged_content)
  have d: "content (blocks (mergeWithPrevious i e) ! (i - 1)) = merged_content ?prev ?cur
           \<or> content (blocks (mergeWithPrevious i e) ! (i - 1))
              = merged_content ?prev ?cur @ [TextNode []]"
    unfolding c by (rule merge_caret_content)
  have "let prev = ?prev; t = textContent ?cur;
             joined = (if prev \<noteq> [] \<and> last prev = BR then butlast prev else prev)
                      @ (if t = [] then [] else [TextNode t])
         in (content (blocks (mergeWithPrevious i e) ! (i - 1)) = joined
             \<or> content (blocks (mergeWithPrevious i e) ! (i - 1)) = joined @ [TextNode []])
            \<and> textContent (content (blocks (mergeWithPrevious i e) ! (i - 1))) = textContent prev @ t"
    unfolding Let_def using d t unfolding j by blast
  then show ?thesis
    using backspaceKey_merge [OF assms] by blast
qed

theorem C10_merge_plain_text_witness:
  "sel markup_merge_editor = Some (caret 1 (In 0 (At 0)))
   \<and> isCollapsed (caret 1 (In 0 (At 0)))
   \<and> getCurrentBlock markup_merge_editor = Some 1
   \<and> content (blocks markup_merge_editor ! 0) = [BR]
   \<and> content (blocks markup_merge_editor ! 1)
       = [TextNode ''a'', Elem ''b'' [TextNode ''b'', Elem ''i'' [TextNode ''c'']]]
   \<and> backspaceKey markup_merge_editor
       = Handled \<lparr>blocks = [\<lparr>btype = Bullet, level = 0, markers = [BulletMarker],
                              content = [TextNode ''abc'']\<rparr>],
                   multiBlockSelection = [], sel = Some (caret 0 (In 0 (At 0)))\<rparr>"
proof -
  have h1: "sel markup_merge_editor = Some (caret 1 (In 0 (At 0)))" by code_simp
  have h2: "isCollapsed (caret 1 (In 0 (At 0)))" by code_simp
  have h3: "getCurrentBlock markup_merge_editor = Some 1" by code_simp
  have h4: "(0::nat) < 1" by simp
  have h5: "start_pos (caret 1 (In 0 (At 0))) = In 0 (At 0)" by code_simp
  have h6: "content (blocks markup_merge_editor ! 1) \<noteq> []" by code_simp
  have c0: "content (blocks markup_merge_editor ! 0) = [BR]" by code_simp
  have c1: "content (blocks markup_merge_editor ! 1)
       = [TextNode ''a'', Elem ''b'' [TextNode ''b'', Elem ''i'' [TextNode ''c'']]]" by code_simp
  have r: "backspaceKey markup_merge_editor
       = Handled \<lparr>blocks = [\<lparr>btype = Bullet, level = 0, markers = [BulletMarker],
                              content = [TextNode ''abc'']\<rparr>],
                   multiBlockSelection = [], sel = Some (caret 0 (In 0 (At 0)))\<rparr>"
    by code_simp
  from C10_merge_plain_text [OF h1 h2 h3 h4 h5 h6] show ?thesis
    by (simp only: h1 h2 h3 c0 c1 r simp_thms)
qed

text \<open>
  Claim C3 at a previous block whose text lies inside an element. The previous block holds
  the bold text "ab" (length 2), the current block holds "xy"; after the merge the text is
  "abxy" in one block and the caret stands at offset 2 of the appended text node, that
  is at offset 4 of the flattened text, not at the pre-merge length 2.
\<close>

theorem C3_merge_caret_behind_markup:
  "backspaceKey bold_merge_editor
     = Handled \<lparr>blocks = [\<lparr>btype = Text, level = 0, markers = [],
                            content = [Elem ''b'' [TextNode ''ab''], TextNode ''xy'']\<rparr>],
                 multiBlockSelection = [], sel = Some (caret 0 (In 1 (At 2)))\<rparr>
   \<and> length (textContent (content (blocks bold_merge_editor ! 0))) = 2
   \<and> flat_offset (In 1 (At 2)) [Elem ''b'' [TextNode ''ab''], TextNode ''xy''] = 4"
  by code_simp

section \<open>Splitting with Enter\<close>

lemma text_split:
  "valid_pos p ns \<Longrightarrow> textContent (delete_after p ns) @ text_after p ns = textContent ns"
proof (induction p arbitrary: ns)
  case (At k)
  have "textContent (take k ns) @ textContent (drop k ns) = textContent (take k ns @ drop k ns)"
    by (simp only: textContent_append)
  then show ?case by simp
next
  case (In i p)
  then have i: "i < length ns" by simp
  then have ns: "ns = take i ns @ ns ! i # drop (Suc i) ns"
    by (simp add: id_take_nth_drop)
  have t: "textContent ns = textContent (take i ns) @ node_text (ns ! i) @ textContent (drop (Suc i) ns)"
    by (subst ns) (simp add: textContent_def)
  show ?case
  proof (cases "ns ! i")
    case (TextNode s)
    then obtain k where p: "p = At k" using In.prems i by (cases p) auto
    show ?thesis using i TextNode p t by (simp add: textContent_def)
  next
    case BR
    then show ?thesis using i t by (simp add: textContent_def)
  next
    case (Elem tg cs)
    then have "valid_pos p cs" using In.prems i by simp
    then have "textContent (delete_after p cs) @ text_after p cs = textContent cs"
      by (rule In.IH)
    then have "concat (map node_text (delete_after p cs)) @ text_after p cs = concat (map node_text cs)"
      by (simp add: textContent_def)
    then show ?thesis using i Elem t by (simp add: textContent_def)
  qed
qed

lemma plain_text_not_br: "plain_text a \<Longrightarrow> a \<noteq> ''<br>''"
  by (auto simp: plain_text_def)

lemma createBlockElement_plain:
  assumes "plain_text a"
  shows "createBlockElement t a lv
         = Some \<lparr>btype = t, level = lv,
                 markers = (if t = Bullet then [BulletMarker]
                            else if t = Numbered then [NumberMarker ''1.''] else []),
                 content = (if a = [] then [BR] else [TextNode a])\<rparr>"
  using assms plain_text_not_br [OF assms]
  by (simp add: createBlockElement_def read_innerHTML_def)

lemma focus_start_text: "textContent (fst (focus_start c)) = textContent c"
  by (simp add: focus_start_def textContent_def split: option.splits)

lemma focus_start_new:
  "focus_start (if a = [] then [BR] else [TextNode a])
   = ((if a = [] then [TextNode [], BR] else [TextNode a]), In 0 (At 0))"
  by (simp add: focus_start_def)

lemma focusBlock_start:
  assumes "j < length (blocks e)"
  shows "blocks (focusBlock j False e)
           = (blocks e)[j := (blocks e ! j)\<lparr>content := fst (focus_start (content (blocks e ! j)))\<rparr>]"
    and "sel (focusBlock j False e) = Some (caret j (snd (focus_start (content (blocks e ! j)))))"
  using assms by (simp_all add: focusBlock_def Let_def split: prod.splits)

lemma insert_after_nth:
  assumes "i < length bs"
  shows "length (insert_after i nb bs) = Suc (length bs)"
    and "insert_after i nb bs ! i = bs ! i"
    and "insert_after i nb bs ! Suc i = nb"
    and "take i (insert_after i nb bs) = take i bs"
    and "drop (Suc (Suc i)) (insert_after i nb bs) = drop (Suc i) bs"
  using assms by (auto simp: insert_after_def nth_append min_def)



lemma map_content_updateNumberedBlocks: "map content (updateNumberedBlocks bs) = map content bs"
  by (simp only: updateNumberedBlocks_def content_number_from)

lemma renumber_if_facts:
  shows "length (renumber_if c bs) = length bs"
    and "map content (renumber_if c bs) = map content bs"
    and "j < length bs \<Longrightarrow> content (renumber_if c bs ! j) = content (bs ! j)"
    and "j < length bs \<Longrightarrow> btype (renumber_if c bs ! j) = btype (bs ! j)"
    and "j < length bs \<Longrightarrow> level (renumber_if c bs ! j) = level (bs ! j)"
  by (simp_all add: renumber_if_def length_updateNumberedBlocks map_content_updateNumberedBlocks
      updateNumberedBlocks_content updateNumberedBlocks_level)

lemma enterKey_convert:
  assumes "getCurrentBlock e = Some i"
    and "trim (textContent (content (blocks e ! i))) = []"
    and "btype (blocks e ! i) = Bullet \<or> btype (blocks e ! i) = Numbered"
  shows "enterKey e = Some (focusBlock i False
           (e\<lparr>blocks := updateNumberedBlocks
               ((blocks e)[i := (blocks e ! i)\<lparr>btype := Text,
                    markers := remove_marker (markers (blocks e ! i))\<rparr>])\<rparr>))"
  using assms by (simp add: enterKey_def Let_def)

lemma enterKey_split:
  assumes "getCurrentBlock e = Some i" and "sel e = Some s"
    and "\<not> (trim (textContent (content (blocks e ! i))) = []
            \<and> (btype (blocks e ! i) = Bullet \<or> btype (blocks e ! i) = Numbered))"
    and "createBlockElement
           (if btype (blocks e ! i) = Bullet \<or> btype (blocks e ! i) = Numbered
            then btype (blocks e ! i) else Text)
           (text_after (start_pos s) (content (blocks e ! i))) (level (blocks e ! i)) = Some nb"
  shows "enterKey e = Some (focusBlock (Suc i) False
           (e\<lparr>blocks := renumber_if (btype (blocks e ! i) = Numbered)
               (insert_after i nb
                 ((blocks e)[i := (blocks e ! i)\<lparr>content :=
                     (if delete_after (start_pos s) (content (blocks e ! i)) = [] then [BR]
                      else delete_after (start_pos s) (content (blocks e ! i)))\<rparr>]))\<rparr>))"
proof -
  have n: "(btype (blocks e ! i) = Numbered \<or>
            (if btype (blocks e ! i) = Bullet \<or> btype (blocks e ! i) = Numbered
             then btype (blocks e ! i) else Text) = Numbered)
           \<longleftrightarrow> btype (blocks e ! i) = Numbered"
    by auto
  show ?thesis
    using assms(1,2,3) unfolding enterKey_def Let_def renumber_if_def n
    by (auto simp: assms(4))
qed


lemma enter_convert_result:
  assumes cur: "getCurrentBlock e = Some i"
    and blank: "trim (textContent (content (blocks e ! i))) = []"
    and lst: "btype (blocks e ! i) = Bullet \<or> btype (blocks e ! i) = Numbered"
  shows "\<exists>e'. enterKey e = Some e' \<and> length (blocks e') = length (blocks e)
           \<and> btype (blocks e' ! i) = Text
           \<and> markers (blocks e' ! i) = drop 1 (markers (blocks e ! i))
           \<and> textContent (content (blocks e' ! i)) = textContent (content (blocks e ! i))"
proof -
  let ?b = "blocks e ! i"
  let ?b' = "?b\<lparr>btype := Text, markers := remove_marker (markers ?b)\<rparr>"
  let ?U = "updateNumberedBlocks ((blocks e)[i := ?b'])"
  let ?e' = "focusBlock i False (e\<lparr>blocks := ?U\<rparr>)"
  have i: "i < length (blocks e)"
    using cur by (simp add: getCurrentBlock_def split: option.splits if_splits)
  have lenU: "length ?U = length (blocks e)" by (simp add: length_updateNumberedBlocks)
  have Ui: "?U ! i = ?b'"
    by (subst updateNumberedBlocks_nth_other) (simp_all add: i)
  have bl: "blocks ?e' = ?U[i := (?U ! i)\<lparr>content := fst (focus_start (content (?U ! i)))\<rparr>]"
    using focusBlock_start(1) [of i "e\<lparr>blocks := ?U\<rparr>"] i lenU by simp
  have nth: "blocks ?e' ! i = ?b'\<lparr>content := fst (focus_start (content ?b))\<rparr>"
    unfolding bl Ui using i lenU by simp
  have "length (blocks ?e') = length (blocks e)" unfolding bl using lenU by simp
  moreover have "btype (blocks ?e' ! i) = Text" unfolding nth by simp
  moreover have "markers (blocks ?e' ! i) = drop 1 (markers ?b)"
    unfolding nth by (simp add: remove_marker_def)
  moreover have "textContent (content (blocks ?e' ! i)) = textContent (content ?b)"
    unfolding nth by (simp add: focus_start_text)
  ultimately show ?thesis
    using enterKey_convert [OF cur blank lst] by blast
qed


lemma textContent_kept:
  "textContent (if ks = [] then [BR] else ks) = textContent ks"
  by (simp add: textContent_def)

lemma textContent_new: "textContent (if a = [] then [TextNode [], BR] else [TextNode a]) = a"
  by (simp add: textContent_def)

lemma flat_offset_new:
  "flat_offset (In 0 (At 0)) (if a = [] then [TextNode [], BR] else [TextNode a]) = 0"
  by (simp add: textContent_def)

lemma content_update: "content (b\<lparr>content := c\<rparr>) = c"
  by simp

lemma enter_split_result:
  assumes cur: "getCurrentBlock e = Some i" and s: "sel e = Some s"
    and valid: "valid_pos (start_pos s) (content (blocks e ! i))"
    and nc: "\<not> (trim (textContent (content (blocks e ! i))) = []
                \<and> (btype (blocks e ! i) = Bullet \<or> btype (blocks e ! i) = Numbered))"
    and plain: "plain_text (text_after (start_pos s) (content (blocks e ! i)))"
  shows "\<exists>e'. enterKey e = Some e' \<and> length (blocks e') = Suc (length (blocks e))
           \<and> textContent (content (blocks e' ! Suc i))
               = text_after (start_pos s) (content (blocks e ! i))
           \<and> textContent (content (blocks e' ! i)) @ textContent (content (blocks e' ! Suc i))
               = textContent (content (blocks e ! i))
           \<and> btype (blocks e' ! Suc i)
               = (if btype (blocks e ! i) = Bullet \<or> btype (blocks e ! i) = Numbered
                  then btype (blocks e ! i) else Text)
           \<and> level (blocks e' ! Suc i) = level (blocks e ! i)
           \<and> btype (blocks e' ! i) = btype (blocks e ! i)
           \<and> map content (take i (blocks e')) = map content (take i (blocks e))
           \<and> map content (drop (Suc (Suc i)) (blocks e')) = map content (drop (Suc i) (blocks e))
           \<and> sel e' = Some (caret (Suc i) (In 0 (At 0)))
           \<and> flat_offset (In 0 (At 0)) (content (blocks e' ! Suc i)) = 0"
proof -
  let ?b = "blocks e ! i"
  let ?a = "text_after (start_pos s) (content ?b)"
  let ?k = "delete_after (start_pos s) (content ?b)"
  let ?t = "if btype ?b = Bullet \<or> btype ?b = Numbered then btype ?b else Text"
  let ?nb = "\<lparr>btype = ?t, level = level ?b,
              markers = (if ?t = Bullet then [BulletMarker]
                         else if ?t = Numbered then [NumberMarker ''1.''] else []),
              content = (if ?a = [] then [BR] else [TextNode ?a])\<rparr>"
  let ?bk = "?b\<lparr>content := (if ?k = [] then [BR] else ?k)\<rparr>"
  let ?I = "insert_after i ?nb ((blocks e)[i := ?bk])"
  let ?B = "renumber_if (btype ?b = Numbered) ?I"
  let ?e' = "focusBlock (Suc i) False (e\<lparr>blocks := ?B\<rparr>)"
  let ?c = "if ?a = [] then [TextNode [], BR] else [TextNode ?a]"
  have i: "i < length (blocks e)"
    using cur by (simp add: getCurrentBlock_def split: option.splits if_splits)
  have cb: "createBlockElement ?t ?a (level ?b) = Some ?nb"
    by (rule createBlockElement_plain [OF plain])
  have ek: "enterKey e = Some ?e'"
    by (rule enterKey_split [OF cur s nc cb])
  have i': "i < length ((blocks e)[i := ?bk])" using i by simp
  note I = insert_after_nth [OF i', of ?nb]
  have lenI: "length ?I = Suc (length (blocks e))" using I(1) by simp
  have lenB: "length ?B = Suc (length (blocks e))" by (simp only: renumber_if_facts(1) lenI)
  have si: "Suc i < length ?B" and ii: "i < length ?B" using i lenB by simp_all
  have siI: "Suc i < length ?I" and iiI: "i < length ?I" using i lenI by simp_all
  have cS: "content (?B ! Suc i) = (if ?a = [] then [BR] else [TextNode ?a])"
    by (simp only: renumber_if_facts(3) [OF siI] I(3)) simp
  have bl: "blocks ?e' = ?B[Suc i := (?B ! Suc i)\<lparr>content := ?c\<rparr>]"
    using focusBlock_start(1) [of "Suc i" "e\<lparr>blocks := ?B\<rparr>"] si
    by (simp add: cS focus_start_new)
  have sl: "sel ?e' = Some (caret (Suc i) (In 0 (At 0)))"
    using focusBlock_start(2) [of "Suc i" "e\<lparr>blocks := ?B\<rparr>"] si
    by (simp add: cS focus_start_new)
  have nS: "blocks ?e' ! Suc i = (?B ! Suc i)\<lparr>content := ?c\<rparr>"
    unfolding bl using si by simp
  have ni: "blocks ?e' ! i = ?B ! i"
    unfolding bl by simp
  have Ii: "?I ! i = ?bk" using I(2) i by simp
  have c1: "length (blocks ?e') = Suc (length (blocks e))" unfolding bl using lenB by simp
  have c2: "textContent (content (blocks ?e' ! Suc i)) = ?a"
    unfolding nS content_update by (rule textContent_new)
  have ci: "content (blocks ?e' ! i) = (if ?k = [] then [BR] else ?k)"
    unfolding ni by (simp only: renumber_if_facts(3) [OF iiI] Ii) simp
  have c3: "textContent (content (blocks ?e' ! i)) @ textContent (content (blocks ?e' ! Suc i))
            = textContent (content ?b)"
    unfolding c2 ci textContent_kept by (rule text_split [OF valid])
  have c4: "btype (blocks ?e' ! Suc i) = ?t"
    unfolding nS by (simp add: renumber_if_facts(4) [OF siI] I(3))
  have c5: "level (blocks ?e' ! Suc i) = level ?b"
    unfolding nS by (simp add: renumber_if_facts(5) [OF siI] I(3))
  have c6: "btype (blocks ?e' ! i) = btype ?b"
    unfolding ni by (simp add: renumber_if_facts(4) [OF iiI] Ii)
  have "map content (take i (blocks ?e')) = take i (map content ?B)"
    unfolding bl by (simp add: take_map)
  also have "\<dots> = map content (take i ?I)"
    by (simp only: renumber_if_facts(2) take_map)
  also have "\<dots> = map content (take i (blocks e))"
    by (simp only: I(4)) simp
  finally have c7: "map content (take i (blocks ?e')) = map content (take i (blocks e))" .
  have "map content (drop (Suc (Suc i)) (blocks ?e')) = drop (Suc (Suc i)) (map content ?B)"
    unfolding bl by (simp add: drop_map)
  also have "\<dots> = map content (drop (Suc (Suc i)) ?I)"
    by (simp only: renumber_if_facts(2) drop_map)
  also have "\<dots> = map content (drop (Suc i) (blocks e))"
    by (simp only: I(5)) simp
  finally have c8: "map content (drop (Suc (Suc i)) (blocks ?e'))
                    = map content (drop (Suc i) (blocks e))" .
  have c9: "flat_offset (In 0 (At 0)) (content (blocks ?e' ! Suc i)) = 0"
    unfolding nS content_update by (rule flat_offset_new)
  show ?thesis
    using ek c1 c2 c3 c4 c5 c6 c7 c8 sl c9 by blast
qed


text \<open>
  Claim C2, as the code has it. Enter with the cursor in a block: if the text of the block
  is empty or white space only and the block is a bullet or numbered block, the block
  becomes a text block in place, loses its marker, keeps its text, and no block is
  created. Otherwise, for a text behind the cursor without markup characters, the
  document has one more block: the new block stands immediately after the current one
  (the blocks before and behind keep their contents and order), holds the text behind the
  cursor, has the list type of the current block if that is bullet or numbered and is a
  text block otherwise, and has the level of the current block; the current block keeps
  the text before the cursor; the caret is at the start of the new block.
\<close>

theorem C2_enter:
  assumes "getCurrentBlock e = Some i" and "sel e = Some s"
    and "valid_pos (start_pos s) (content (blocks e ! i))"
  shows "(trim (textContent (content (blocks e ! i))) = []
            \<and> (btype (blocks e ! i) = Bullet \<or> btype (blocks e ! i) = Numbered) \<longrightarrow>
          (\<exists>e'. enterKey e = Some e' \<and> length (blocks e') = length (blocks e)
             \<and> btype (blocks e' ! i) = Text
             \<and> markers (blocks e' ! i) = drop 1 (markers (blocks e ! i))
             \<and> textContent (content (blocks e' ! i)) = textContent (content (blocks e ! i))))
       \<and> (\<not> (trim (textContent (content (blocks e ! i))) = []
                \<and> (btype (blocks e ! i) = Bullet \<or> btype (blocks e ! i) = Numbered))
            \<and> plain_text (text_after (start_pos s) (content (blocks e ! i))) \<longrightarrow>
          (\<exists>e'. enterKey e = Some e' \<and> length (blocks e') = Suc (length (blocks e))
             \<and> textContent (content (blocks e' ! Suc i))
                 = text_after (start_pos s) (content (blocks e ! i))
             \<and> textContent (content (blocks e' ! i)) @ textContent (content (blocks e' ! Suc i))
                 = textContent (content (blocks e ! i))
             \<and> btype (blocks e' ! Suc i)
                 = (if btype (blocks e ! i) = Bullet \<or> btype (blocks e ! i) = Numbered
                    then btype (blocks e ! i) else Text)
             \<and> level (blocks e' ! Suc i) = level (blocks e ! i)
             \<and> btype (blocks e' ! i) = btype (blocks e ! i)
             \<and> map content (take i (blocks e')) = map content (take i (blocks e))
             \<and> map content (drop (Suc (Suc i)) (blocks e'))
                 = map content (drop (Suc i) (blocks e))
             \<and> sel e' = Some (caret (Suc i) (In 0 (At 0)))
             \<and> flat_offset (In 0 (At 0)) (content (blocks e' ! Suc i)) = 0))"
proof (intro conjI impI)
  assume "trim (textContent (content (blocks e ! i))) = []
            \<and> (btype (blocks e ! i) = Bullet \<or> btype (blocks e ! i) = Numbered)"
  then show "\<exists>e'. enterKey e = Some e' \<and> length (blocks e') = length (blocks e)
             \<and> btype (blocks e' ! i) = Text
             \<and> markers (blocks e' ! i) = drop 1 (markers (blocks e ! i))
             \<and> textContent (content (blocks e' ! i)) = textContent (content (blocks e ! i))"
    using enter_convert_result [OF assms(1)] by blast
next
  assume a: "\<not> (trim (textContent (content (blocks e ! i))) = []
                \<and> (btype (blocks e ! i) = Bullet \<or> btype (blocks e ! i) = Numbered))
            \<and> plain_text (text_after (start_pos s) (content (blocks e ! i)))"
  show "\<exists>e'. enterKey e = Some e' \<and> length (blocks e') = Suc (length (blocks e))
             \<and> textContent (content (blocks e' ! Suc i))
                 = text_after (start_pos s) (content (blocks e ! i))
             \<and> textContent (content (blocks e' ! i)) @ textContent (content (blocks e' ! Suc i))
                 = textContent (content (blocks e ! i))
             \<and> btype (blocks e' ! Suc i)
                 = (if btype (blocks e ! i) = Bullet \<or> btype (blocks e ! i) = Numbered
                    then btype (blocks e ! i) else Text)
             \<and> level (blocks e' ! Suc i) = level (blocks e ! i)
             \<and> btype (blocks e' ! i) = btype (blocks e ! i)
             \<and> map content (take i (blocks e')) = map content (take i (blocks e))
             \<and> map content (drop (Suc (Suc i)) (blocks e'))
                 = map content (drop (Suc i) (blocks e))
             \<and> sel e' = Some (caret (Suc i) (In 0 (At 0)))
             \<and> flat_offset (In 0 (At 0)) (content (blocks e' ! Suc i)) = 0"
    by (rule enter_split_result [OF assms conjunct1 [OF a] conjunct2 [OF a]])
qed

theorem C2_enter_witness:
  "getCurrentBlock empty_bullet_editor = Some 0
   \<and> trim (textContent (content (blocks empty_bullet_editor ! 0))) = []
   \<and> btype (blocks empty_bullet_editor ! 0) = Bullet
   \<and> enterKey empty_bullet_editor
       = Some (editor_at [\<lparr>btype = Text, level = 1, markers = [],
                           content = [TextNode [], BR]\<rparr>] 0 (In 0 (At 0)))
   \<and> getCurrentBlock hello_editor = Some 0
   \<and> text_after (In 0 (At 2)) (content (blocks hello_editor ! 0)) = ''llo''
   \<and> plain_text ''llo''
   \<and> enterKey hello_editor
       = Some (editor_at [\<lparr>btype = Numbered, level = 1, markers = [NumberMarker ''1.''],
                           content = [TextNode ''he'']\<rparr>,
                          \<lparr>btype = Numbered, level = 1, markers = [NumberMarker ''2.''],
                           content = [TextNode ''llo'']\<rparr>,
                          mk_block Text 0 ''next''] 1 (In 0 (At 0)))"
proof -
  have a1: "getCurrentBlock empty_bullet_editor = Some 0" by code_simp
  have a2: "sel empty_bullet_editor = Some (caret 0 (In 0 (At 0)))" by code_simp
  have a3: "valid_pos (start_pos (caret 0 (In 0 (At 0)))) (content (blocks empty_bullet_editor ! 0))"
    by code_simp
  have a4: "trim (textContent (content (blocks empty_bullet_editor ! 0))) = []" by code_simp
  have a5: "btype (blocks empty_bullet_editor ! 0) = Bullet" by code_simp
  have a6: "enterKey empty_bullet_editor
       = Some (editor_at [\<lparr>btype = Text, level = 1, markers = [],
                           content = [TextNode [], BR]\<rparr>] 0 (In 0 (At 0)))" by code_simp
  have b1: "getCurrentBlock hello_editor = Some 0" by code_simp
  have b2: "sel hello_editor = Some (caret 0 (In 0 (At 2)))" by code_simp
  have b3: "valid_pos (start_pos (caret 0 (In 0 (At 2)))) (content (blocks hello_editor ! 0))"
    by code_simp
  have b4: "text_after (In 0 (At 2)) (content (blocks hello_editor ! 0)) = ''llo''" by code_simp
  have b5: "plain_text ''llo''" by code_simp
  have b6: "enterKey hello_editor
       = Some (editor_at [\<lparr>btype = Numbered, level = 1, markers = [NumberMarker ''1.''],
                           content = [TextNode ''he'']\<rparr>,
                          \<lparr>btype = Numbered, level = 1, markers = [NumberMarker ''2.''],
                           content = [TextNode ''llo'']\<rparr>,
                          mk_block Text 0 ''next''] 1 (In 0 (At 0)))" by code_simp
  from C2_enter [OF a1 a2 a3] C2_enter [OF b1 b2 b3] show ?thesis
    by (simp only: a1 a4 a5 a6 b1 b4 b5 b6 simp_thms)
qed

text \<open>
  The claim as stated fails at a bullet block that holds one space: its text is not empty,
  yet Enter converts the block to a text block in place and creates no block.
\<close>

theorem C2_blank_bullet_counterexample:
  "textContent (content (blocks space_bullet_editor ! 0)) \<noteq> []
   \<and> btype (blocks space_bullet_editor ! 0) = Bullet
   \<and> enterKey space_bullet_editor
       = Some (editor_at [\<lparr>btype = Text, level = 0, markers = [], content = [TextNode '' '']\<rparr>]
                 0 (In 0 (At 0)))"
  by code_simp

section \<open>Autoformat\<close>

lemma textContent_set_textContent: "textContent (set_textContent x) = x"
  by (simp add: set_textContent_def textContent_def)

lemma numberedMatch_iff:
  "numberedMatch t = Some n \<longleftrightarrow>
   (\<exists>ds r. t = ds @ CHR ''.'' # r \<and> (length ds = 1 \<or> length ds = 2)
            \<and> list_all is_digit ds \<and> n = Suc (length ds))"
proof
  assume m: "numberedMatch t = Some n"
  then obtain d1 c2 r where t: "t = d1 # c2 # r" and d1: "is_digit d1"
    by (auto simp: numberedMatch_def split: list.splits if_splits)
  show "\<exists>ds r. t = ds @ CHR ''.'' # r \<and> (length ds = 1 \<or> length ds = 2)
            \<and> list_all is_digit ds \<and> n = Suc (length ds)"
  proof (cases "is_digit c2")
    case True
    with m t d1 obtain r' where "r = CHR ''.'' # r'" and "n = 3"
      by (auto simp: numberedMatch_def split: list.splits if_splits)
    then have "t = [d1, c2] @ CHR ''.'' # r'" "list_all is_digit [d1, c2]" "n = Suc (length [d1, c2])"
      using t d1 True by simp_all
    then show ?thesis by (metis length_Cons list.size(3) One_nat_def Suc_1)
  next
    case False
    with m t d1 have "c2 = CHR ''.''" and "n = 2"
      by (auto simp: numberedMatch_def split: if_splits)
    then have "t = [d1] @ CHR ''.'' # r" "list_all is_digit [d1]" "n = Suc (length [d1])"
      using t d1 by simp_all
    then show ?thesis by (metis length_Cons list.size(3) One_nat_def)
  qed
next
  assume "\<exists>ds r. t = ds @ CHR ''.'' # r \<and> (length ds = 1 \<or> length ds = 2)
            \<and> list_all is_digit ds \<and> n = Suc (length ds)"
  then obtain ds r where t: "t = ds @ CHR ''.'' # r" and l: "length ds = 1 \<or> length ds = 2"
    and d: "list_all is_digit ds" and n: "n = Suc (length ds)" by blast
  have nd: "\<not> is_digit CHR ''.''" by (simp add: is_digit_def)
  from l show "numberedMatch t = Some n"
  proof
    assume "length ds = 1"
    then obtain a where "ds = [a]" by (cases ds) auto
    then show ?thesis using t d n nd by (simp add: numberedMatch_def)
  next
    assume "length ds = 2"
    then obtain a b where "ds = [a, b]"
      by (cases ds; cases "tl ds") auto
    then show ?thesis using t d n nd by (simp add: numberedMatch_def)
  qed
qed

lemma startsWith_single: "startsWith t [c] \<longleftrightarrow> (\<exists>r. t = c # r)"
  by (cases t) (auto simp: startsWith_def)

lemma numberedMatch_digit: "numberedMatch t = Some n \<Longrightarrow> \<exists>d r. t = d # r \<and> is_digit d"
  by (auto simp: numberedMatch_def split: list.splits if_splits)

lemma autoformat_exclusive:
  "\<not> (startsWith t ''>'' \<and> (startsWith t ''-'' \<or> startsWith t ''*''))"
  "\<not> (startsWith t ''>'' \<and> numberedMatch t \<noteq> None)"
  "\<not> ((startsWith t ''-'' \<or> startsWith t ''*'') \<and> numberedMatch t \<noteq> None)"
proof -
  show "\<not> (startsWith t ''>'' \<and> (startsWith t ''-'' \<or> startsWith t ''*''))"
    by (auto simp: startsWith_single)
  have nd: "\<not> is_digit CHR ''>''" "\<not> is_digit CHR ''-''" "\<not> is_digit CHR ''*''"
    by (simp_all add: is_digit_def)
  show "\<not> (startsWith t ''>'' \<and> numberedMatch t \<noteq> None)"
    using nd by (auto simp: startsWith_single dest!: numberedMatch_digit)
  show "\<not> ((startsWith t ''-'' \<or> startsWith t ''*'') \<and> numberedMatch t \<noteq> None)"
    using nd by (auto simp: startsWith_single dest!: numberedMatch_digit)
qed


lemma beforeinput_quote:
  assumes "\<not> isComposing ev" and "inputType ev = ''insertText''" and "data ev = '' ''"
    and "getCurrentBlock e = Some i" and "startsWith (textContent (content (blocks e ! i))) ''>''"
  shows "\<exists>e'. beforeinput ev e = Handled e' \<and> btype (blocks e' ! i) = Quote
           \<and> content (blocks e' ! i)
               = set_textContent (trimStart (drop 1 (textContent (content (blocks e ! i)))))"
proof -
  have i: "i < length (blocks e)"
    using assms(4) by (simp add: getCurrentBlock_def split: option.splits if_splits)
  show ?thesis
    using assms i by (simp add: beforeinput_def Let_def blocks_focusBlock_end)
qed

lemma beforeinput_bullet:
  assumes "\<not> isComposing ev" and "inputType ev = ''insertText''" and "data ev = '' ''"
    and "getCurrentBlock e = Some i"
    and "startsWith (textContent (content (blocks e ! i))) ''-''
         \<or> startsWith (textContent (content (blocks e ! i))) ''*''"
  shows "\<exists>e'. beforeinput ev e = Handled e' \<and> btype (blocks e' ! i) = Bullet
           \<and> content (blocks e' ! i)
               = set_textContent (trimStart (drop 1 (textContent (content (blocks e ! i)))))"
proof -
  have i: "i < length (blocks e)"
    using assms(4) by (simp add: getCurrentBlock_def split: option.splits if_splits)
  have q: "\<not> startsWith (textContent (content (blocks e ! i))) ''>''"
    using autoformat_exclusive(1) assms(5) by blast
  show ?thesis
    using assms(1-4) i q assms(5)
    by (simp add: beforeinput_def Let_def blocks_focusBlock_end)
qed

lemma beforeinput_numbered:
  assumes "\<not> isComposing ev" and "inputType ev = ''insertText''" and "data ev = '' ''"
    and "getCurrentBlock e = Some i"
    and "numberedMatch (textContent (content (blocks e ! i))) = Some n"
  shows "\<exists>e'. beforeinput ev e = Handled e' \<and> btype (blocks e' ! i) = Numbered
           \<and> content (blocks e' ! i)
               = set_textContent (trimStart (drop n (textContent (content (blocks e ! i)))))"
proof -
  let ?t = "textContent (content (blocks e ! i))"
  let ?b' = "(blocks e ! i)\<lparr>btype := Numbered, content := set_textContent (trimStart (drop n ?t)),
               markers := markers (blocks e ! i) @ [NumberMarker ''1.'']\<rparr>"
  let ?U = "updateNumberedBlocks ((blocks e)[i := ?b'])"
  have i: "i < length (blocks e)"
    using assms(4) by (simp add: getCurrentBlock_def split: option.splits if_splits)
  have q: "\<not> startsWith ?t ''>''" "\<not> (startsWith ?t ''-'' \<or> startsWith ?t ''*'')"
    using autoformat_exclusive(2,3) [of ?t] assms(5) by auto
  have h: "beforeinput ev e = Handled (focusBlock i True (e\<lparr>blocks := ?U\<rparr>))"
    using assms q by (simp add: beforeinput_def Let_def)
  have i': "i < length ((blocks e)[i := ?b'])" using i by simp
  have "btype (?U ! i) = Numbered"
    using updateNumberedBlocks_level(2) [OF i'] i by simp
  moreover have "content (?U ! i) = set_textContent (trimStart (drop n ?t))"
    using updateNumberedBlocks_content [OF i'] i by simp
  ultimately show ?thesis
    using h by (simp add: blocks_focusBlock_end)
qed

lemma beforeinput_none:
  assumes "\<not> startsWith (textContent (content (blocks e ! i))) ''>''"
    and "\<not> startsWith (textContent (content (blocks e ! i))) ''-''"
    and "\<not> startsWith (textContent (content (blocks e ! i))) ''*''"
    and "numberedMatch (textContent (content (blocks e ! i))) = None"
    and "getCurrentBlock e = Some i"
  shows "beforeinput ev e = Native"
  using assms by (simp add: beforeinput_def Let_def)

text \<open>
  Claim C5. When a single space is typed (an insertText event with data " ", outside a
  composition) in a block with text \<open>t\<close>, the handler prevents the insertion and
  converts the block: to a quote if \<open>t\<close> starts with ">", to a bullet if it starts with
  "-" or "*", to a numbered block if it starts with one or two digits and a dot; the new
  content is \<open>t\<close> without the matched prefix and the white space behind it, as one text
  node or none. The three conditions exclude one another, and without any of them the
  space is left to the browser. Typing "- " in an empty text block gives a bullet block
  with empty content, "12. " gives a numbered block, "100. " converts nothing.
\<close>

theorem C5_autoformat:
  assumes "\<not> isComposing ev" and "inputType ev = ''insertText''" and "data ev = '' ''"
    and "getCurrentBlock e = Some i"
  shows "(let t = textContent (content (blocks e ! i)) in
          (startsWith t ''>'' \<longrightarrow>
             (\<exists>e'. beforeinput ev e = Handled e' \<and> btype (blocks e' ! i) = Quote
                \<and> content (blocks e' ! i) = set_textContent (trimStart (drop 1 t))))
        \<and> (startsWith t ''-'' \<or> startsWith t ''*'' \<longrightarrow>
             (\<exists>e'. beforeinput ev e = Handled e' \<and> btype (blocks e' ! i) = Bullet
                \<and> content (blocks e' ! i) = set_textContent (trimStart (drop 1 t))))
        \<and> (\<forall>n. numberedMatch t = Some n \<longrightarrow>
             (\<exists>e'. beforeinput ev e = Handled e' \<and> btype (blocks e' ! i) = Numbered
                \<and> content (blocks e' ! i) = set_textContent (trimStart (drop n t))))
        \<and> (\<not> startsWith t ''>'' \<and> \<not> startsWith t ''-'' \<and> \<not> startsWith t ''*''
             \<and> numberedMatch t = None \<longrightarrow> beforeinput ev e = Native)
        \<and> \<not> (startsWith t ''>'' \<and> (startsWith t ''-'' \<or> startsWith t ''*''))
        \<and> \<not> (startsWith t ''>'' \<and> numberedMatch t \<noteq> None)
        \<and> \<not> ((startsWith t ''-'' \<or> startsWith t ''*'') \<and> numberedMatch t \<noteq> None)
        \<and> (\<forall>n. numberedMatch t = Some n \<longleftrightarrow>
             (\<exists>ds r. t = ds @ CHR ''.'' # r \<and> (length ds = 1 \<or> length ds = 2)
                \<and> list_all is_digit ds \<and> n = Suc (length ds))))
       \<and> (\<forall>x. textContent (set_textContent x) = x)
       \<and> beforeinput space_typed (typed ''-'')
           = Handled \<lparr>blocks = [\<lparr>btype = Bullet, level = 0, markers = [BulletMarker], content = []\<rparr>],
                       multiBlockSelection = [], sel = Some (caret 0 (At 0))\<rparr>
       \<and> beforeinput space_typed (typed ''12.'')
           = Handled \<lparr>blocks = [\<lparr>btype = Numbered, level = 0, markers = [NumberMarker ''1.''],
                                  content = []\<rparr>],
                       multiBlockSelection = [], sel = Some (caret 0 (At 0))\<rparr>
       \<and> beforeinput space_typed (typed ''100.'') = Native"
proof (intro conjI)
  let ?t = "textContent (content (blocks e ! i))"
  have "(startsWith ?t ''>'' \<longrightarrow>
             (\<exists>e'. beforeinput ev e = Handled e' \<and> btype (blocks e' ! i) = Quote
                \<and> content (blocks e' ! i) = set_textContent (trimStart (drop 1 ?t))))"
    using beforeinput_quote [OF assms] by blast
  moreover have "(startsWith ?t ''-'' \<or> startsWith ?t ''*'' \<longrightarrow>
             (\<exists>e'. beforeinput ev e = Handled e' \<and> btype (blocks e' ! i) = Bullet
                \<and> content (blocks e' ! i) = set_textContent (trimStart (drop 1 ?t))))"
    using beforeinput_bullet [OF assms] by blast
  moreover have "(\<forall>n. numberedMatch ?t = Some n \<longrightarrow>
             (\<exists>e'. beforeinput ev e = Handled e' \<and> btype (blocks e' ! i) = Numbered
                \<and> content (blocks e' ! i) = set_textContent (trimStart (drop n ?t))))"
    using beforeinput_numbered [OF assms] by blast
  moreover have "(\<not> startsWith ?t ''>'' \<and> \<not> startsWith ?t ''-'' \<and> \<not> startsWith ?t ''*''
             \<and> numberedMatch ?t = None \<longrightarrow> beforeinput ev e = Native)"
    using beforeinput_none [OF _ _ _ _ assms(4)] by blast
  moreover note autoformat_exclusive [of ?t]
  moreover have "(\<forall>n. numberedMatch ?t = Some n \<longleftrightarrow>
             (\<exists>ds r. ?t = ds @ CHR ''.'' # r \<and> (length ds = 1 \<or> length ds = 2)
                \<and> list_all is_digit ds \<and> n = Suc (length ds)))"
    using numberedMatch_iff by blast
  ultimately show "let t = textContent (content (blocks e ! i)) in
          (startsWith t ''>'' \<longrightarrow>
             (\<exists>e'. beforeinput ev e = Handled e' \<and> btype (blocks e' ! i) = Quote
                \<and> content (blocks e' ! i) = set_textContent (trimStart (drop 1 t))))
        \<and> (startsWith t ''-'' \<or> startsWith t ''*'' \<longrightarrow>
             (\<exists>e'. beforeinput ev e = Handled e' \<and> btype (blocks e' ! i) = Bullet
                \<and> content (blocks e' ! i) = set_textContent (trimStart (drop 1 t))))
        \<and> (\<forall>n. numberedMatch t = Some n \<longrightarrow>
             (\<exists>e'. beforeinput ev e = Handled e' \<and> btype (blocks e' ! i) = Numbered
                \<and> content (blocks e' ! i) = set_textContent (trimStart (drop n t))))
        \<and> (\<not> startsWith t ''>'' \<and> \<not> startsWith t ''-'' \<and> \<not> startsWith t ''*''
             \<and> numberedMatch t = None \<longrightarrow> beforeinput ev e = Native)
        \<and> \<not> (startsWith t ''>'' \<and> (startsWith t ''-'' \<or> startsWith t ''*''))
        \<and> \<not> (startsWith t ''>'' \<and> numberedMatch t \<noteq> None)
        \<and> \<not> ((startsWith t ''-'' \<or> startsWith t ''*'') \<and> numberedMatch t \<noteq> None)
        \<and> (\<forall>n. numberedMatch t = Some n \<longleftrightarrow>
             (\<exists>ds r. t = ds @ CHR ''.'' # r \<and> (length ds = 1 \<or> length ds = 2)
                \<and> list_all is_digit ds \<and> n = Suc (length ds)))"
    unfolding Let_def by (intro conjI)
next
  show "\<forall>x. textContent (set_textContent x) = x"
    by (simp add: textContent_set_textContent)
next
  show "beforeinput space_typed (typed ''-'')
           = Handled \<lparr>blocks = [\<lparr>btype = Bullet, level = 0, markers = [BulletMarker], content = []\<rparr>],
                       multiBlockSelection = [], sel = Some (caret 0 (At 0))\<rparr>"
    by code_simp
next
  show "beforeinput space_typed (typed ''12.'')
           = Handled \<lparr>blocks = [\<lparr>btype = Numbered, level = 0, markers = [NumberMarker ''1.''],
                                  content = []\<rparr>],
                       multiBlockSelection = [], sel = Some (caret 0 (At 0))\<rparr>"
    by code_simp
next
  show "beforeinput space_typed (typed ''100.'') = Native"
    by code_simp
qed

theorem C5_autoformat_witness:
  "\<not> isComposing space_typed \<and> inputType space_typed = ''insertText''
   \<and> data space_typed = '' '' \<and> getCurrentBlock (typed ''>  note'') = Some 0
   \<and> startsWith (textContent (content (blocks (typed ''>  note'') ! 0))) ''>''
   \<and> beforeinput space_typed (typed ''>  note'')
       = Handled \<lparr>blocks = [\<lparr>btype = Quote, level = 0, markers = [],
                              content = [TextNode ''note'']\<rparr>],
                   multiBlockSelection = [], sel = Some (caret 0 (At 1))\<rparr>"
proof -
  have h1: "\<not> isComposing space_typed" by code_simp
  have h2: "inputType space_typed = ''insertText''" by code_simp
  have h3: "data space_typed = '' ''" by code_simp
  have h4: "getCurrentBlock (typed ''>  note'') = Some 0" by code_simp
  have h5: "startsWith (textContent (content (blocks (typed ''>  note'') ! 0))) ''>''"
    by code_simp
  have r: "beforeinput space_typed (typed ''>  note'')
       = Handled \<lparr>blocks = [\<lparr>btype = Quote, level = 0, markers = [],
                              content = [TextNode ''note'']\<rparr>],
                   multiBlockSelection = [], sel = Some (caret 0 (At 1))\<rparr>"
    by code_simp
  from C5_autoformat [OF h1 h2 h3 h4] show ?thesis
    by (simp only: h1 h2 h3 h4 h5 r simp_thms)
qed

section \<open>Lines, trimming and collapsing\<close>

lemma trimStart_Cons: "trimStart (c # s) = (if is_space c then trimStart s else c # s)"
  by (simp add: trimStart_def)

lemma trimEnd_snoc: "trimEnd (s @ [c]) = (if is_space c then trimEnd s else s @ [c])"
  by (simp add: trimEnd_def)

lemma trimEnd_Nil: "trimEnd [] = []"
  by (simp add: trimEnd_def)

lemma trimEnd_eq_Nil_iff: "trimEnd s = [] \<longleftrightarrow> (\<forall>c\<in>set s. is_space c)"
  by (simp add: trimEnd_def dropWhile_eq_Nil_conv)

lemma trimStart_eq_Nil_iff: "trimStart s = [] \<longleftrightarrow> (\<forall>c\<in>set s. is_space c)"
  by (simp add: trimStart_def dropWhile_eq_Nil_conv)

lemma trimEnd_Cons:
  "trimEnd (c # s) = (if trimEnd s = [] \<and> is_space c then [] else c # trimEnd s)"
proof (cases "\<forall>x\<in>set s. is_space x")
  case True
  then have a: "dropWhile is_space (rev s @ [c]) = dropWhile is_space [c]"
    by (intro dropWhile_append2) simp
  have b: "dropWhile is_space (rev s) = []" using True by simp
  show ?thesis unfolding trimEnd_def rev.simps a b by simp
next
  case False
  then obtain x where "x \<in> set (rev s)" "\<not> is_space x" by auto
  then have a: "dropWhile is_space (rev s @ [c]) = dropWhile is_space (rev s) @ [c]"
    by (intro dropWhile_append1)
  have b: "dropWhile is_space (rev s) \<noteq> []" using False by simp
  show ?thesis unfolding trimEnd_def rev.simps a using b by simp
qed

lemma trim_commute: "trimEnd (trimStart s) = trimStart (trimEnd s)"
proof (induction s)
  case Nil
  then show ?case by (simp add: trimStart_def trimEnd_def)
next
  case (Cons c s)
  show ?case
  proof (cases "is_space c")
    case True
    then show ?thesis
      using Cons.IH by (auto simp: trimStart_Cons trimEnd_Cons trimStart_def)
  next
    case False
    then show ?thesis by (simp add: trimStart_Cons trimEnd_Cons)
  qed
qed

lemma trim_Cons_space: "is_space c \<Longrightarrow> trim (c # s) = trim s"
  by (simp add: trim_def trimStart_Cons)

lemma trim_snoc_space: "is_space c \<Longrightarrow> trim (s @ [c]) = trim s"
  by (simp add: trim_def trim_commute trimEnd_snoc)

lemma trim_eq_Nil_iff: "trim s = [] \<longleftrightarrow> (\<forall>c\<in>set s. is_space c)"
proof -
  have "set (trimStart s) \<subseteq> set s" by (simp add: trimStart_def set_dropWhileD subsetI)
  then show ?thesis
    by (auto simp: trim_def trimEnd_eq_Nil_iff trimStart_def dest: set_dropWhileD)
       (metis dropWhile_eq_Nil_conv empty_iff list.set(1) hd_dropWhile hd_in_set
          dropWhile_append3 in_set_conv_decomp)
qed


lemma hd_trimStart: "trimStart s \<noteq> [] \<Longrightarrow> \<not> is_space (hd (trimStart s))"
  unfolding trimStart_def by (rule hd_dropWhile)

lemma last_trimEnd: "trimEnd s \<noteq> [] \<Longrightarrow> \<not> is_space (last (trimEnd s))"
proof -
  assume a: "trimEnd s \<noteq> []"
  then have n: "dropWhile is_space (rev s) \<noteq> []" by (simp add: trimEnd_def)
  have "last (trimEnd s) = hd (dropWhile is_space (rev s))"
    using n by (simp add: trimEnd_def last_rev)
  then show ?thesis using hd_dropWhile [OF n] by simp
qed

lemma trim_ends:
  assumes "trim s \<noteq> []"
  shows "\<not> is_space (hd (trim s))" and "\<not> is_space (last (trim s))"
proof -
  show "\<not> is_space (last (trim s))"
    using assms unfolding trim_def by (rule last_trimEnd)
  show "\<not> is_space (hd (trim s))"
    using assms unfolding trim_def trim_commute by (rule hd_trimStart)
qed

lemma trimStart_fixed: "s \<noteq> [] \<Longrightarrow> \<not> is_space (hd s) \<Longrightarrow> trimStart s = s"
  by (cases s) (simp_all add: trimStart_def)

lemma trimEnd_fixed: "s \<noteq> [] \<Longrightarrow> \<not> is_space (last s) \<Longrightarrow> trimEnd s = s"
proof -
  assume a: "s \<noteq> []" "\<not> is_space (last s)"
  then have "rev s \<noteq> []" "\<not> is_space (hd (rev s))" by (simp_all add: hd_rev)
  then have "dropWhile is_space (rev s) = rev s" by (cases "rev s") simp_all
  then show ?thesis by (simp add: trimEnd_def)
qed

lemma trim_fixed:
  "s \<noteq> [] \<Longrightarrow> \<not> is_space (hd s) \<Longrightarrow> \<not> is_space (last s) \<Longrightarrow> trim s = s"
  by (simp add: trim_def trimStart_fixed trimEnd_fixed)

lemma trim_idem: "trim (trim s) = trim s"
proof (cases "trim s = []")
  case True
  then show ?thesis by (simp add: trim_Nil)
next
  case False
  then show ?thesis by (intro trim_fixed trim_ends)
qed

lemma set_trim: "set (trim s) \<subseteq> set s"
proof -
  have "set (trimStart s) \<subseteq> set s" unfolding trimStart_def by (auto dest: set_dropWhileD)
  moreover have "set (trimEnd t) \<subseteq> set t" for t
    unfolding trimEnd_def by (auto dest: set_dropWhileD)
  ultimately show ?thesis unfolding trim_def by blast
qed

lemma split_lines_nonempty: "split_lines s \<noteq> []"
  by (induction s) (auto split: list.splits)

lemma split_lines_Cons_NL: "split_lines (CHR 0x0A # s) = [] # split_lines s"
  by simp

lemma split_lines_Cons_other:
  "c \<noteq> CHR 0x0A \<Longrightarrow> split_lines (c # s) = (c # hd (split_lines s)) # tl (split_lines s)"
  using split_lines_nonempty [of s] by (cases "split_lines s") simp_all

lemma split_lines_append_NL:
  "CHR 0x0A \<notin> set x \<Longrightarrow> split_lines (x @ CHR 0x0A # r) = x # split_lines r"
proof (induction x)
  case Nil
  then show ?case by simp
next
  case (Cons a x)
  then have "a \<noteq> CHR 0x0A" and "CHR 0x0A \<notin> set x" by auto
  then show ?case
    using Cons.IH split_lines_Cons_other [of a "x @ CHR 0x0A # r"] by simp
qed

lemma split_lines_no_NL: "CHR 0x0A \<notin> set x \<Longrightarrow> split_lines x = [x]"
proof (induction x)
  case Nil
  then show ?case by simp
next
  case (Cons a x)
  then have "a \<noteq> CHR 0x0A" and "CHR 0x0A \<notin> set x" by auto
  then show ?case
    using Cons.IH split_lines_Cons_other [of a x] by simp
qed

lemma lines_no_NL: "l \<in> set (split_lines s) \<Longrightarrow> CHR 0x0A \<notin> set l"
proof (induction s arbitrary: l)
  case Nil
  then show ?case by simp
next
  case (Cons c s)
  show ?case
  proof (cases "c = CHR 0x0A")
    case True
    then show ?thesis using Cons by (auto simp: split_lines_Cons_NL)
  next
    case False
    have "hd (split_lines s) \<in> set (split_lines s)"
      using split_lines_nonempty by simp
    moreover have "set (tl (split_lines s)) \<subseteq> set (split_lines s)"
      by (simp add: list.set_sel(2) split_lines_nonempty subsetI)
    ultimately show ?thesis
      using Cons False by (auto simp del: split_lines.simps simp add: split_lines_Cons_other)
  qed
qed

lemma split_lines_snoc:
  "split_lines (s @ [c]) =
     (if c = CHR 0x0A then split_lines s @ [[]]
      else butlast (split_lines s) @ [last (split_lines s) @ [c]])"
proof (induction s)
  case Nil
  then show ?case by simp
next
  case (Cons a s)
  show ?case
  proof (cases "a = CHR 0x0A")
    case True
    then show ?thesis
      using Cons split_lines_nonempty [of s]
      by (simp del: split_lines.simps add: split_lines_Cons_NL)
  next
    case False
    obtain l ls where ls: "split_lines s = l # ls"
      using split_lines_nonempty [of s] by (cases "split_lines s") auto
    show ?thesis
      using Cons False ls
      by (cases "ls = []") (auto simp del: split_lines.simps simp add: split_lines_Cons_other)
  qed
qed


lemma hd_split_lines_Cons:
  "hd (split_lines (c # s)) = (if c = CHR 0x0A then [] else c # hd (split_lines s))"
  using split_lines_Cons_other [of c s] by (simp del: split_lines.simps add: split_lines_Cons_NL)

lemma tl_split_lines_Cons:
  "tl (split_lines (c # s)) = (if c = CHR 0x0A then split_lines s else tl (split_lines s))"
  using split_lines_Cons_other [of c s] by (simp del: split_lines.simps add: split_lines_Cons_NL)

lemma nonblank_lines_hd_tl:
  "nonblank_lines s = filter (\<lambda>l. trim l \<noteq> []) (hd (split_lines s) # tl (split_lines s))"
  using split_lines_nonempty [of s] by (simp add: nonblank_lines_def)

lemma collapse_newlines_lines:
  "hd (split_lines (collapse_newlines s)) = hd (split_lines s)
   \<and> filter (\<lambda>l. trim l \<noteq> []) (tl (split_lines (collapse_newlines s)))
       = filter (\<lambda>l. trim l \<noteq> []) (tl (split_lines s))"
proof (induction s rule: collapse_newlines.induct)
  case (1 a b c cs)
  let ?P = "\<lambda>l. trim l \<noteq> []"
  define r where "r = b # c # cs"
  show ?case
  proof (cases "a = CHR 0x0A \<and> b = CHR 0x0A \<and> c = CHR 0x0A")
    case True
    then have ih: "hd (split_lines (collapse_newlines r)) = hd (split_lines r)"
      "filter ?P (tl (split_lines (collapse_newlines r))) = filter ?P (tl (split_lines r))"
      using "1.IH"(1) unfolding r_def by blast+
    have c: "collapse_newlines (a # r) = collapse_newlines r" using True by (simp add: r_def)
    have h: "hd (split_lines (a # r)) = []" using True by (simp add: hd_split_lines_Cons)
    have h2: "hd (split_lines r) = []"
      using True unfolding r_def by (simp add: hd_split_lines_Cons)
    have t: "tl (split_lines (a # r)) = split_lines r"
      using True by (simp add: tl_split_lines_Cons)
    have "filter ?P (split_lines r) = filter ?P (tl (split_lines r))"
      using split_lines_nonempty [of r] h2 by (cases "split_lines r") (simp_all add: trim_Nil)
    then have "hd (split_lines (collapse_newlines (a # r))) = hd (split_lines (a # r))
      \<and> filter ?P (tl (split_lines (collapse_newlines (a # r)))) = filter ?P (tl (split_lines (a # r)))"
      unfolding c t h using ih h2 by simp
    then show ?thesis unfolding r_def .
  next
    case False
    then have ih: "hd (split_lines (collapse_newlines r)) = hd (split_lines r)"
      "filter ?P (tl (split_lines (collapse_newlines r))) = filter ?P (tl (split_lines r))"
      using "1.IH"(2) unfolding r_def by blast+
    have c: "collapse_newlines (a # r) = a # collapse_newlines r" using False by (simp add: r_def)
    have f: "filter ?P (split_lines (collapse_newlines r)) = filter ?P (split_lines r)"
      using ih nonblank_lines_hd_tl [of r] nonblank_lines_hd_tl [of "collapse_newlines r"]
      by (simp add: nonblank_lines_def)
    have "hd (split_lines (collapse_newlines (a # r))) = hd (split_lines (a # r))
      \<and> filter ?P (tl (split_lines (collapse_newlines (a # r)))) = filter ?P (tl (split_lines (a # r)))"
      unfolding c hd_split_lines_Cons tl_split_lines_Cons using ih f by simp
    then show ?thesis unfolding r_def .
  qed
qed simp_all

lemma nonblank_lines_collapse: "nonblank_lines (collapse_newlines s) = nonblank_lines s"
  using collapse_newlines_lines [of s]
  by (simp add: nonblank_lines_hd_tl)

lemma nonblank_lines_Nil: "nonblank_lines [] = []"
  by (simp add: nonblank_lines_def trim_Nil)

lemma nonblank_lines_NL: "nonblank_lines (CHR 0x0A # rest) = nonblank_lines rest"
  by (simp add: nonblank_lines_def trim_Nil)

lemma nonblank_Cons_space_exact:
  assumes "is_space c" and "list_all (\<lambda>l. trim l = l) (nonblank_lines (c # s))"
  shows "nonblank_lines (c # s) = nonblank_lines s"
proof (cases "c = CHR 0x0A")
  case True
  then show ?thesis by (simp only: nonblank_lines_NL)
next
  case False
  let ?l = "c # hd (split_lines s)"
  have n: "nonblank_lines (c # s) = filter (\<lambda>l. trim l \<noteq> []) (?l # tl (split_lines s))"
    unfolding nonblank_lines_hd_tl [of "c # s"] hd_split_lines_Cons tl_split_lines_Cons
    using False by simp
  have b: "trim ?l = []"
  proof (rule ccontr)
    assume ne: "trim ?l \<noteq> []"
    then have "?l \<in> set (nonblank_lines (c # s))" unfolding n by simp
    then have "trim ?l = ?l" using assms(2) by (simp add: list_all_iff)
    then have "hd (trim ?l) = c" by simp
    then show False using trim_ends(1) [OF ne] assms(1) by simp
  qed
  then have "trim (hd (split_lines s)) = []" by (simp add: trim_Cons_space [OF assms(1)])
  then show ?thesis unfolding n nonblank_lines_hd_tl [of s] using b by simp
qed

lemma nonblank_snoc_space_exact:
  assumes "is_space c" and "list_all (\<lambda>l. trim l = l) (nonblank_lines (s @ [c]))"
  shows "nonblank_lines (s @ [c]) = nonblank_lines s"
proof (cases "c = CHR 0x0A")
  case True
  then show ?thesis by (simp add: nonblank_lines_def split_lines_snoc trim_Nil)
next
  case False
  let ?l = "last (split_lines s) @ [c]"
  have d: "split_lines s = butlast (split_lines s) @ [last (split_lines s)]"
    using split_lines_nonempty [of s] by simp
  have n: "nonblank_lines (s @ [c])
           = filter (\<lambda>l. trim l \<noteq> []) (butlast (split_lines s)) @ filter (\<lambda>l. trim l \<noteq> []) [?l]"
    using False by (simp add: nonblank_lines_def split_lines_snoc)
  have m: "nonblank_lines s
           = filter (\<lambda>l. trim l \<noteq> []) (butlast (split_lines s))
             @ filter (\<lambda>l. trim l \<noteq> []) [last (split_lines s)]"
    unfolding nonblank_lines_def by (subst d) (simp only: filter_append)
  have b: "trim ?l = []"
  proof (rule ccontr)
    assume ne: "trim ?l \<noteq> []"
    then have "?l \<in> set (nonblank_lines (s @ [c]))" unfolding n by simp
    then have "trim ?l = ?l" using assms(2) by (simp add: list_all_iff)
    then have "last (trim ?l) = c" by simp
    then show False using trim_ends(2) [OF ne] assms(1) by simp
  qed
  then have "trim (last (split_lines s)) = []" by (simp add: trim_snoc_space [OF assms(1)])
  then show ?thesis unfolding n m using b by simp
qed

lemma nonblank_trimStart_exact:
  "list_all (\<lambda>l. trim l = l) (nonblank_lines s) \<Longrightarrow> nonblank_lines (trimStart s) = nonblank_lines s"
proof (induction s)
  case Nil
  then show ?case by (simp add: trimStart_def)
next
  case (Cons c s)
  show ?case
  proof (cases "is_space c")
    case True
    have e: "nonblank_lines (c # s) = nonblank_lines s"
      by (rule nonblank_Cons_space_exact [OF True Cons.prems])
    then have "nonblank_lines (trimStart s) = nonblank_lines s"
      using Cons.IH Cons.prems by simp
    then show ?thesis using True e by (simp add: trimStart_Cons)
  next
    case False
    then show ?thesis by (simp add: trimStart_Cons)
  qed
qed

lemma nonblank_trimEnd_exact:
  "list_all (\<lambda>l. trim l = l) (nonblank_lines s) \<Longrightarrow> nonblank_lines (trimEnd s) = nonblank_lines s"
proof (induction s rule: rev_induct)
  case Nil
  then show ?case by (simp add: trimEnd_Nil)
next
  case (snoc c s)
  show ?case
  proof (cases "is_space c")
    case True
    have e: "nonblank_lines (s @ [c]) = nonblank_lines s"
      by (rule nonblank_snoc_space_exact [OF True snoc.prems])
    then have "nonblank_lines (trimEnd s) = nonblank_lines s"
      using snoc.IH snoc.prems by simp
    then show ?thesis using True e by (simp add: trimEnd_snoc)
  next
    case False
    then show ?thesis by (simp add: trimEnd_snoc)
  qed
qed

lemma nonblank_trim_exact:
  assumes "list_all (\<lambda>l. trim l = l) (nonblank_lines s)"
  shows "nonblank_lines (trim s) = nonblank_lines s"
proof -
  have a: "nonblank_lines (trimStart s) = nonblank_lines s"
    by (rule nonblank_trimStart_exact [OF assms])
  then have "list_all (\<lambda>l. trim l = l) (nonblank_lines (trimStart s))" using assms by simp
  then have "nonblank_lines (trimEnd (trimStart s)) = nonblank_lines (trimStart s)"
    by (rule nonblank_trimEnd_exact)
  then show ?thesis using a by (simp add: trim_def)
qed

section \<open>The markdown round trip\<close>

lemma plain_text_subset: "plain_text s \<Longrightarrow> set t \<subseteq> set s \<Longrightarrow> plain_text t"
  by (auto simp: plain_text_def list_all_iff)

lemma item_createBlockElement:
  assumes "plain_text c"
  shows "map_option (\<lambda>b. (btype b, trim (textContent (content b)))) (createBlockElement t c lv)
         = Some (t, trim c)"
  by (simp add: createBlockElement_plain [OF assms] textContent_def trim_Nil)

lemma block_createBlockElement:
  assumes "plain_text c" and "createBlockElement t c lv = Some b"
  shows "btype b = t" and "level b = lv" and "textContent (content b) = c"
  using assms(2) unfolding createBlockElement_plain [OF assms(1)]
  by (auto simp: textContent_def)


lemma trimmed_rest:
  assumes "T = p @ c" and "p \<noteq> []" and "is_space (last p)" and "\<not> is_space (last T)"
  shows "c \<noteq> []" and "trim c \<noteq> []" and "\<not> is_space (last (trim c))"
    and "\<not> is_space (hd (trim c))"
proof -
  show c: "c \<noteq> []" using assms by auto
  then have "last c = last T" using assms(1) by simp
  then have "\<not> is_space (last c)" using assms(4) by simp
  then have "\<exists>x\<in>set c. \<not> is_space x" using c last_in_set by blast
  then show t: "trim c \<noteq> []" by (simp add: trim_eq_Nil_iff)
  show "\<not> is_space (last (trim c))" "\<not> is_space (hd (trim c))"
    using trim_ends [OF t] by simp_all
qed

lemma canon_trim:
  assumes "t \<noteq> []" and "\<not> is_space (last t)" and "p \<noteq> []" and "\<not> is_space (hd p)"
  shows "trim (p @ t) = p @ t"
  using assms by (intro trim_fixed) simp_all

lemma not_space_marks:
  "\<not> is_space CHR ''#''" "\<not> is_space CHR ''-''" "\<not> is_space CHR ''>''" "is_space CHR '' ''"
  by (simp_all add: is_space_def)

lemma item_level:
  "map_option (\<lambda>b. (btype b, trim (textContent (content b)))) (createBlockElement t c lv)
   = make_item t c"
  by (cases "read_innerHTML (if c = [] then ''<br>'' else c)")
     (simp_all add: make_item_def createBlockElement_def)

lemma make_item_plain: "plain_text c \<Longrightarrow> make_item t c = Some (t, trim c)"
  unfolding make_item_def by (rule item_createBlockElement)

lemma line_block_parse: "parse_line l = (t, c, lv) \<Longrightarrow> line_block l = createBlockElement t c lv"
  by (simp add: line_block_def)

lemma line_item_parse: "line_item l = (case parse_line l of (t, c, lv) \<Rightarrow> make_item t c)"
  by (cases "parse_line l") (simp add: line_item_def line_block_def item_level)

lemma line_item_unfold:
  "line_item l =
     (if trim l = [] then make_item Text []
      else if startsWith (trim l) ''### '' then make_item Heading3 (drop 4 (trim l))
      else if startsWith (trim l) ''## '' then make_item Heading2 (drop 3 (trim l))
      else if startsWith (trim l) ''# '' then make_item Heading1 (drop 2 (trim l))
      else if startsWith (trim l) ''> '' then make_item Quote (drop 2 (trim l))
      else if bullet_match (trim l) then make_item Bullet (dropWhile is_space (drop 1 (trim l)))
      else if numbered_match (trim l) then
        make_item Numbered (dropWhile is_space (drop 1 (dropWhile is_digit (trim l))))
      else make_item Text (trim l))"
  by (simp add: line_item_parse parse_line_def Let_def)

lemma line_item_trim: "line_item (trim l) = line_item l"
  by (simp only: line_item_unfold trim_idem)

lemma canon_item:
  assumes "trim K = K" and "K \<noteq> []"
  shows "line_item K =
     (if startsWith K ''### '' then make_item Heading3 (drop 4 K)
      else if startsWith K ''## '' then make_item Heading2 (drop 3 K)
      else if startsWith K ''# '' then make_item Heading1 (drop 2 K)
      else if startsWith K ''> '' then make_item Quote (drop 2 K)
      else if bullet_match K then make_item Bullet (dropWhile is_space (drop 1 K))
      else if numbered_match K then
        make_item Numbered (dropWhile is_space (drop 1 (dropWhile is_digit K)))
      else make_item Text K)"
  by (simp only: line_item_unfold assms if_False)

lemma heading1_canon:
  assumes "t \<noteq> []" and "\<not> is_space (last t)" and "\<not> is_space (hd t)" and "plain_text t"
  shows "line_item (''# '' @ t) = Some (Heading1, t)"
proof -
  define K where "K = ''# '' @ t"
  have k: "trim K = K" unfolding K_def
    using assms(1,2) by (intro canon_trim) (simp_all add: not_space_marks)
  have ne: "K \<noteq> []" by (simp add: K_def)
  have tt: "trim t = t" using assms by (intro trim_fixed)
  have s: "\<not> startsWith K ''### ''" "\<not> startsWith K ''## ''" "startsWith K ''# ''" "drop 2 K = t"
    by (simp_all add: K_def startsWith_def)
  have "line_item K = Some (Heading1, t)"
    by (simp only: canon_item [OF k ne] s if_True if_False make_item_plain [OF assms(4)] tt)
  then show ?thesis unfolding K_def .
qed

lemma heading2_canon:
  assumes "t \<noteq> []" and "\<not> is_space (last t)" and "\<not> is_space (hd t)" and "plain_text t"
  shows "line_item (''## '' @ t) = Some (Heading2, t)"
proof -
  define K where "K = ''## '' @ t"
  have k: "trim K = K" unfolding K_def
    using assms(1,2) by (intro canon_trim) (simp_all add: not_space_marks)
  have ne: "K \<noteq> []" by (simp add: K_def)
  have tt: "trim t = t" using assms by (intro trim_fixed)
  have s: "\<not> startsWith K ''### ''" "startsWith K ''## ''" "drop 3 K = t"
    by (simp_all add: K_def startsWith_def)
  have "line_item K = Some (Heading2, t)"
    by (simp only: canon_item [OF k ne] s if_True if_False make_item_plain [OF assms(4)] tt)
  then show ?thesis unfolding K_def .
qed

lemma heading3_canon:
  assumes "t \<noteq> []" and "\<not> is_space (last t)" and "\<not> is_space (hd t)" and "plain_text t"
  shows "line_item (''### '' @ t) = Some (Heading3, t)"
proof -
  define K where "K = ''### '' @ t"
  have k: "trim K = K" unfolding K_def
    using assms(1,2) by (intro canon_trim) (simp_all add: not_space_marks)
  have ne: "K \<noteq> []" by (simp add: K_def)
  have tt: "trim t = t" using assms by (intro trim_fixed)
  have s: "startsWith K ''### ''" "drop 4 K = t"
    by (simp_all add: K_def startsWith_def)
  have "line_item K = Some (Heading3, t)"
    by (simp only: canon_item [OF k ne] s if_True if_False make_item_plain [OF assms(4)] tt)
  then show ?thesis unfolding K_def .
qed

lemma bullet_canon:
  assumes "t \<noteq> []" and "\<not> is_space (last t)" and "\<not> is_space (hd t)" and "plain_text t"
  shows "line_item (''- '' @ t) = Some (Bullet, t)"
proof -
  define K where "K = ''- '' @ t"
  have k: "trim K = K" unfolding K_def
    using assms(1,2) by (intro canon_trim) (simp_all add: not_space_marks)
  have ne: "K \<noteq> []" by (simp add: K_def)
  have tt: "trim t = t" using assms by (intro trim_fixed)
  have d: "dropWhile is_space t = t" using assms(1,3) by (cases t) simp_all
  have s: "\<not> startsWith K ''### ''" "\<not> startsWith K ''## ''" "\<not> startsWith K ''# ''"
    "\<not> startsWith K ''> ''" "bullet_match K" "dropWhile is_space (drop 1 K) = t"
    by (simp_all add: K_def startsWith_def bullet_match_def not_space_marks d)
  have "line_item K = Some (Bullet, t)"
    by (simp only: canon_item [OF k ne] s if_True if_False make_item_plain [OF assms(4)] tt)
  then show ?thesis unfolding K_def .
qed


lemma last_dropWhile: "dropWhile P xs \<noteq> [] \<Longrightarrow> last (dropWhile P xs) = last xs"
  by (induction xs) (auto split: if_splits)

lemma heading_piece:
  assumes T: "\<not> is_space (last T)" "plain_text c" "CHR 0x0A \<notin> set T"
    and p: "T = p @ c" "p \<noteq> []" "is_space (last p)"
    and b: "btype b = H" "textContent (content b) = c"
    and piece: "\<And>x. x \<noteq> [] \<Longrightarrow> textContent (content b) = c \<Longrightarrow> trim c = x \<Longrightarrow> btype b = H \<Longrightarrow>
              fst (block_markdown cs b) = p @ x @ [CHR 0x0A, CHR 0x0A]"
    and canon: "\<And>t. t \<noteq> [] \<Longrightarrow> \<not> is_space (last t) \<Longrightarrow> \<not> is_space (hd t) \<Longrightarrow> plain_text t \<Longrightarrow>
              line_item (p @ t) = Some (H, t)"
    and hdp: "\<not> is_space (hd p)"
  shows "fst (block_markdown cs b) = (p @ trim c) @ CHR 0x0A # [CHR 0x0A]"
    and "CHR 0x0A \<notin> set (p @ trim c)"
    and "trim (p @ trim c) = p @ trim c"
    and "line_item (p @ trim c) = Some (H, trim c)"
proof -
  note r = trimmed_rest [OF p(1) p(2) p(3) T(1)]
  have sub: "set (trim c) \<subseteq> set c" by (rule set_trim)
  have pl: "plain_text (trim c)" by (rule plain_text_subset [OF T(2) sub])
  show "trim (p @ trim c) = p @ trim c"
    by (rule canon_trim [OF r(2) r(3) p(2) hdp])
  show "fst (block_markdown cs b) = (p @ trim c) @ CHR 0x0A # [CHR 0x0A]"
    using piece [OF r(2) b(2) refl b(1)] by simp
  show "CHR 0x0A \<notin> set (p @ trim c)" using sub T(3) p(1) by auto
  show "line_item (p @ trim c) = Some (H, trim c)"
    by (rule canon [OF r(2) r(3) r(4) pl])
qed

lemma block_markdown_heading:
  assumes "x \<noteq> []" and "textContent (content b) = c" and "trim c = x"
  shows "btype b = Heading1 \<Longrightarrow> fst (block_markdown cs b) = ''# '' @ x @ [CHR 0x0A, CHR 0x0A]"
    and "btype b = Heading2 \<Longrightarrow> fst (block_markdown cs b) = ''## '' @ x @ [CHR 0x0A, CHR 0x0A]"
    and "btype b = Heading3 \<Longrightarrow> fst (block_markdown cs b) = ''### '' @ x @ [CHR 0x0A, CHR 0x0A]"
    and "btype b = Text \<Longrightarrow> fst (block_markdown cs b) = x @ [CHR 0x0A, CHR 0x0A]"
    and "btype b = Bullet \<Longrightarrow> level b = 0 \<Longrightarrow> fst (block_markdown cs b) = ''- '' @ x @ [CHR 0x0A]"
  using assms by (simp_all add: block_markdown_def Let_def)

lemma parse_line_unfold:
  assumes "trim l \<noteq> []"
  shows "parse_line l =
     (if startsWith (trim l) ''### '' then (Heading3, drop 4 (trim l), 0)
      else if startsWith (trim l) ''## '' then (Heading2, drop 3 (trim l), 0)
      else if startsWith (trim l) ''# '' then (Heading1, drop 2 (trim l), 0)
      else if startsWith (trim l) ''> '' then (Quote, drop 2 (trim l), 0)
      else if bullet_match (trim l) then
        (Bullet, dropWhile is_space (drop 1 (trim l)),
         length (takeWhile (\<lambda>c. c = CHR '' '') l) div 2)
      else if numbered_match (trim l) then
        (Numbered, dropWhile is_space (drop 1 (dropWhile is_digit (trim l))),
         length (takeWhile (\<lambda>c. c = CHR '' '') l) div 2)
      else (Text, trim l, 0))"
  unfolding parse_line_def Let_def by (simp only: assms if_False)

lemma startsWith_split: "startsWith T p \<Longrightarrow> length p = n \<Longrightarrow> T = p @ drop n T"
  unfolding startsWith_def by (metis append_take_drop_id)

text \<open>
  A line in scope that is not blank: the markdown of its block is the normal line of its
  classification and content and one or two line feeds, and the normal line is read as
  the line itself is.
\<close>

lemma line_piece:
  assumes nl: "CHR 0x0A \<notin> set l" and nb: "trim l \<noteq> []"
    and pp: "parse_line l = (t, c, lv)" and pc: "plain_text c"
    and sc: "t \<in> set [Text, Heading1, Heading2, Heading3] \<or> (t = Bullet \<and> lv = 0)"
    and lb: "line_block l = Some b"
  shows "\<exists>e. fst (block_markdown cs b) = normal_line (t, trim c) @ CHR 0x0A # e
              \<and> (e = [] \<or> e = [CHR 0x0A])"
    and "CHR 0x0A \<notin> set (normal_line (t, trim c))"
    and "trim (normal_line (t, trim c)) = normal_line (t, trim c)"
    and "normal_line (t, trim c) \<noteq> []"
    and "line_item (normal_line (t, trim c)) = Some (t, trim c)"
    and "line_item l = Some (t, trim c)"
proof -
  define T where "T = trim l"
  define K where "K = normal_line (t, trim c)"
  have Tne: "T \<noteq> []" using nb by (simp add: T_def)
  have Tl: "\<not> is_space (last T)" and Th: "\<not> is_space (hd T)"
    using trim_ends [OF nb] by (simp_all add: T_def)
  have Tsub: "set T \<subseteq> set l" unfolding T_def by (rule set_trim)
  have Tn: "CHR 0x0A \<notin> set T" using Tsub nl by auto
  have cb: "createBlockElement t c lv = Some b"
    using lb line_block_parse [OF pp] by simp
  note bb = block_createBlockElement [OF pc cb]
  show li: "line_item l = Some (t, trim c)"
    by (simp add: line_item_parse pp make_item_plain [OF pc])
  note u = parse_line_unfold [OF nb, folded T_def]
  have main: "(\<exists>e. fst (block_markdown cs b) = K @ CHR 0x0A # e \<and> (e = [] \<or> e = [CHR 0x0A]))
      \<and> CHR 0x0A \<notin> set K \<and> trim K = K \<and> K \<noteq> [] \<and> line_item K = Some (t, trim c)"
  proof -
    consider (h3) "startsWith T ''### ''"
      | (h2) "\<not> startsWith T ''### ''" "startsWith T ''## ''"
      | (h1) "\<not> startsWith T ''### ''" "\<not> startsWith T ''## ''" "startsWith T ''# ''"
      | (q) "\<not> startsWith T ''### ''" "\<not> startsWith T ''## ''" "\<not> startsWith T ''# ''"
            "startsWith T ''> ''"
      | (bu) "\<not> startsWith T ''### ''" "\<not> startsWith T ''## ''" "\<not> startsWith T ''# ''"
            "\<not> startsWith T ''> ''" "bullet_match T"
      | (nu) "\<not> startsWith T ''### ''" "\<not> startsWith T ''## ''" "\<not> startsWith T ''# ''"
            "\<not> startsWith T ''> ''" "\<not> bullet_match T" "numbered_match T"
      | (tx) "\<not> startsWith T ''### ''" "\<not> startsWith T ''## ''" "\<not> startsWith T ''# ''"
            "\<not> startsWith T ''> ''" "\<not> bullet_match T" "\<not> numbered_match T"
      by blast
    then show ?thesis
    proof cases
      case h3
      have e: "t = Heading3" "c = drop 4 T"
        using pp unfolding u by (simp_all only: h3 if_True prod.inject)
      have k: "K = ''### '' @ trim c" by (simp add: K_def normal_line_def md_prefix_def e(1))
      have sp: "T = ''### '' @ c" unfolding e(2) by (rule startsWith_split [OF h3]) simp
      have m: "''### '' \<noteq> []" "is_space (last ''### '')" "\<not> is_space (hd ''### '')"
        by (simp_all add: not_space_marks)
      note hp = heading_piece [OF Tl pc Tn sp m(1) m(2) bb(1) [unfolded e(1)] bb(3)
          block_markdown_heading(3) heading3_canon m(3)]
      have "fst (block_markdown cs b) = K @ CHR 0x0A # [CHR 0x0A]"
        unfolding k by (rule hp(1))
      moreover have "CHR 0x0A \<notin> set K" unfolding k by (rule hp(2))
      moreover have "trim K = K" unfolding k by (rule hp(3))
      moreover have "line_item K = Some (t, trim c)" unfolding k e(1) by (rule hp(4))
      moreover have "K \<noteq> []" by (simp add: k)
      ultimately show ?thesis by blast
    next
      case h2
      have e: "t = Heading2" "c = drop 3 T"
        using pp unfolding u by (simp_all only: h2 if_True if_False prod.inject)
      have k: "K = ''## '' @ trim c" by (simp add: K_def normal_line_def md_prefix_def e(1))
      have sp: "T = ''## '' @ c" unfolding e(2) by (rule startsWith_split [OF h2(2)]) simp
      have m: "''## '' \<noteq> []" "is_space (last ''## '')" "\<not> is_space (hd ''## '')"
        by (simp_all add: not_space_marks)
      note hp = heading_piece [OF Tl pc Tn sp m(1) m(2) bb(1) [unfolded e(1)] bb(3)
          block_markdown_heading(2) heading2_canon m(3)]
      have "fst (block_markdown cs b) = K @ CHR 0x0A # [CHR 0x0A]"
        unfolding k by (rule hp(1))
      moreover have "CHR 0x0A \<notin> set K" unfolding k by (rule hp(2))
      moreover have "trim K = K" unfolding k by (rule hp(3))
      moreover have "line_item K = Some (t, trim c)" unfolding k e(1) by (rule hp(4))
      moreover have "K \<noteq> []" by (simp add: k)
      ultimately show ?thesis by blast
    next
      case h1
      have e: "t = Heading1" "c = drop 2 T"
        using pp unfolding u by (simp_all only: h1 if_True if_False prod.inject)
      have k: "K = ''# '' @ trim c" by (simp add: K_def normal_line_def md_prefix_def e(1))
      have sp: "T = ''# '' @ c" unfolding e(2) by (rule startsWith_split [OF h1(3)]) simp
      have m: "''# '' \<noteq> []" "is_space (last ''# '')" "\<not> is_space (hd ''# '')"
        by (simp_all add: not_space_marks)
      note hp = heading_piece [OF Tl pc Tn sp m(1) m(2) bb(1) [unfolded e(1)] bb(3)
          block_markdown_heading(1) heading1_canon m(3)]
      have "fst (block_markdown cs b) = K @ CHR 0x0A # [CHR 0x0A]"
        unfolding k by (rule hp(1))
      moreover have "CHR 0x0A \<notin> set K" unfolding k by (rule hp(2))
      moreover have "trim K = K" unfolding k by (rule hp(3))
      moreover have "line_item K = Some (t, trim c)" unfolding k e(1) by (rule hp(4))
      moreover have "K \<noteq> []" by (simp add: k)
      ultimately show ?thesis by blast
    next
      case q
      have "t = Quote" using pp unfolding u by (simp only: q if_True if_False prod.inject)
      then show ?thesis using sc by simp
    next
      case bu
      have e: "t = Bullet" "c = dropWhile is_space (drop 1 T)"
        using pp unfolding u by (simp_all only: bu if_True if_False prod.inject)
      have k: "K = ''- '' @ trim c" by (simp add: K_def normal_line_def md_prefix_def e(1))
      obtain m w r where Tm: "T = m # w # r"
        using bu(5) by (auto simp: bullet_match_def split: list.splits)
      have ld: "last (drop 1 T) = last T" and dne: "drop 1 T \<noteq> []" using Tm by simp_all
      have "\<not> is_space (last (drop 1 T))" using Tl ld by simp
      then have "\<exists>x\<in>set (drop 1 T). \<not> is_space x" using dne last_in_set by blast
      then have cne: "c \<noteq> []" unfolding e(2) by (simp add: dropWhile_eq_Nil_conv)
      have ch: "\<not> is_space (hd c)" using cne unfolding e(2) by (rule hd_dropWhile)
      have cl: "\<not> is_space (last c)"
        using last_dropWhile [of is_space "drop 1 T"] cne Tl ld unfolding e(2) by simp
      have tc: "trim c = c" by (rule trim_fixed [OF cne ch cl])
      have lv: "level b = 0" and bt: "btype b = Bullet" using sc bb(1,2) e(1) by auto
      have pcs: "fst (block_markdown cs b) = K @ CHR 0x0A # []"
        unfolding k tc using block_markdown_heading(5) [OF cne bb(3) tc bt lv, of cs] by simp
      have sub: "set c \<subseteq> set T" unfolding e(2)
        using set_drop_subset [of 1 T] by (auto dest: set_dropWhileD)
      have "CHR 0x0A \<notin> set K" unfolding k tc using sub Tn by auto
      moreover have "trim K = K"
        unfolding k tc using canon_trim [OF cne cl, of "''- ''"] by (simp add: not_space_marks)
      moreover have "line_item K = Some (t, trim c)"
        unfolding k tc e(1) by (rule bullet_canon [OF cne cl ch pc])
      moreover have "K \<noteq> []" by (simp add: k)
      ultimately show ?thesis using pcs by blast
    next
      case nu
      have "t = Numbered" using pp unfolding u by (simp only: nu if_True if_False prod.inject)
      then show ?thesis using sc by simp
    next
      case tx
      have e: "t = Text" "c = T"
        using pp unfolding u by (simp_all only: tx if_True if_False prod.inject)
      have tt: "trim c = T" unfolding e(2) T_def by (rule trim_idem)
      have k: "K = T" by (simp add: K_def normal_line_def md_prefix_def e(1) tt)
      have pcs: "fst (block_markdown cs b) = K @ CHR 0x0A # [CHR 0x0A]"
        unfolding k using block_markdown_heading(4) [OF Tne bb(3) tt, of cs] bb(1) e(1) by simp
      have "line_item T = line_item l" unfolding T_def by (rule line_item_trim)
      then have "line_item K = Some (t, trim c)" unfolding k li .
      moreover have "trim K = K" unfolding k T_def by (rule trim_idem)
      moreover have "K \<noteq> []" unfolding k by (rule Tne)
      moreover have "CHR 0x0A \<notin> set K" unfolding k by (rule Tn)
      ultimately show ?thesis using pcs by blast
    qed
  qed
  show "\<exists>e. fst (block_markdown cs b) = normal_line (t, trim c) @ CHR 0x0A # e
              \<and> (e = [] \<or> e = [CHR 0x0A])"
    and "CHR 0x0A \<notin> set (normal_line (t, trim c))"
    and "trim (normal_line (t, trim c)) = normal_line (t, trim c)"
    and "normal_line (t, trim c) \<noteq> []"
    and "line_item (normal_line (t, trim c)) = Some (t, trim c)"
    using main unfolding K_def by blast+
qed

lemma blank_piece:
  assumes "trim l = []" and "line_block l = Some b"
  shows "fst (block_markdown cs b) = [CHR 0x0A]"
proof -
  have "createBlockElement Text [] 0 = Some b"
    using assms by (simp add: line_block_def parse_line_def)
  then have "btype b = Text" "content b = [BR]"
    by (auto simp: createBlockElement_empty)
  then show ?thesis by (simp add: block_markdown_def textContent_def trim_Nil)
qed

lemma nonblank_lines_piece:
  assumes "CHR 0x0A \<notin> set K" and "trim K \<noteq> []" and "e = [] \<or> e = [CHR 0x0A]"
  shows "nonblank_lines ((K @ CHR 0x0A # e) @ rest) = K # nonblank_lines rest"
proof -
  have "nonblank_lines (K @ CHR 0x0A # (e @ rest)) = K # nonblank_lines (e @ rest)"
    using assms(2) by (simp add: nonblank_lines_def split_lines_append_NL [OF assms(1)])
  moreover have "nonblank_lines (e @ rest) = nonblank_lines rest"
    using assms(3) by (auto simp: nonblank_lines_NL)
  ultimately show ?thesis by simp
qed

lemma those_Cons_Some:
  assumes "those (x # xs) = Some ys"
  obtains y ys' where "x = Some y" and "those xs = Some ys'" and "ys = y # ys'"
  using assms by (auto split: option.splits)

lemma line_in_scope_block:
  assumes "line_in_scope l"
  obtains t c lv b where "parse_line l = (t, c, lv)" and "plain_text c"
    and "t \<in> set [Text, Heading1, Heading2, Heading3] \<or> (t = Bullet \<and> lv = 0)"
    and "line_block l = Some b"
proof -
  obtain t c lv where pp: "parse_line l = (t, c, lv)" by (cases "parse_line l")
  have pc: "plain_text c"
    and sc: "t \<in> set [Text, Heading1, Heading2, Heading3] \<or> (t = Bullet \<and> lv = 0)"
    using assms pp by (simp_all add: line_in_scope_def)
  have "line_block l \<noteq> None"
    by (simp add: line_block_parse [OF pp] createBlockElement_plain [OF pc])
  then obtain b where "line_block l = Some b" by blast
  then show ?thesis using that pp pc sc by blast
qed

text \<open>
  The markdown written for the blocks of lines in scope: its lines that are not blank are
  the normal lines of the lines that are not blank, and they are read as those are.
\<close>

lemma raw_lines:
  assumes "list_all (\<lambda>l. CHR 0x0A \<notin> set l \<and> line_in_scope l) ls"
    and "those (map line_block ls) = Some bs"
  shows "\<exists>items. those (map line_item (filter (\<lambda>l. trim l \<noteq> []) ls)) = Some items
           \<and> nonblank_lines (blocks_markdown cs bs) = map normal_line items
           \<and> those (map line_item (map normal_line items)) = Some items
           \<and> list_all (\<lambda>K. trim K = K) (map normal_line items)"
  using assms
proof (induction ls arbitrary: bs cs)
  case Nil
  then show ?case by (simp add: nonblank_lines_Nil)
next
  case (Cons l ls)
  have "those (line_block l # map line_block ls) = Some bs" using Cons.prems(2) by simp
  then obtain b bs' where b: "line_block l = Some b"
    and bs': "those (map line_block ls) = Some bs'" and bs: "bs = b # bs'"
    by (rule those_Cons_Some)
  have nl: "CHR 0x0A \<notin> set l" and sc0: "line_in_scope l"
    and rest: "list_all (\<lambda>l. CHR 0x0A \<notin> set l \<and> line_in_scope l) ls"
    using Cons.prems(1) by simp_all
  obtain t c lv where pp: "parse_line l = (t, c, lv)" and pc: "plain_text c"
    and sc: "t \<in> set [Text, Heading1, Heading2, Heading3] \<or> (t = Bullet \<and> lv = 0)"
    using line_in_scope_block [OF sc0] by metis
  obtain piece cs' where bm: "block_markdown cs b = (piece, cs')" by (cases "block_markdown cs b")
  have raw: "blocks_markdown cs bs = piece @ blocks_markdown cs' bs'"
    by (simp add: bs bm)
  obtain items where ih: "those (map line_item (filter (\<lambda>l. trim l \<noteq> []) ls)) = Some items"
    "nonblank_lines (blocks_markdown cs' bs') = map normal_line items"
    "those (map line_item (map normal_line items)) = Some items"
    "list_all (\<lambda>K. trim K = K) (map normal_line items)"
    using Cons.IH [OF rest bs', of cs'] by blast
  show ?case
  proof (cases "trim l = []")
    case True
    have "piece = [CHR 0x0A]" using blank_piece [OF True b, of cs] bm by simp
    then have "nonblank_lines (blocks_markdown cs bs) = map normal_line items"
      using ih(2) by (simp add: raw nonblank_lines_NL)
    then show ?thesis using ih True by auto
  next
    case False
    let ?K = "normal_line (t, trim c)"
    note lp = line_piece [OF nl False pp pc sc b]
    obtain e where e: "piece = ?K @ CHR 0x0A # e" "e = [] \<or> e = [CHR 0x0A]"
      using lp(1) [of cs] bm by auto
    have tk: "trim ?K \<noteq> []" using lp(3,4) by simp
    have n: "nonblank_lines (blocks_markdown cs bs) = ?K # map normal_line items"
      unfolding raw e(1) ih(2) [symmetric] by (rule nonblank_lines_piece [OF lp(2) tk e(2)])
    have "those (map line_item (filter (\<lambda>l. trim l \<noteq> []) (l # ls))) = Some ((t, trim c) # items)"
      using False lp(6) ih(1) by simp
    moreover have "nonblank_lines (blocks_markdown cs bs) = map normal_line ((t, trim c) # items)"
      using n by simp
    moreover have "those (map line_item (map normal_line ((t, trim c) # items)))
                   = Some ((t, trim c) # items)"
      using lp(5) ih(3) by simp
    moreover have "list_all (\<lambda>K. trim K = K) (map normal_line ((t, trim c) # items))"
      using lp(3) ih(4) by simp
    ultimately show ?thesis by blast
  qed
qed

lemma those_map_Some:
  "list_all (\<lambda>x. f x \<noteq> None) xs \<Longrightarrow> \<exists>ys. those (map f xs) = Some ys"
  by (induction xs) auto

text \<open>
  Claim C8, as the code has it. For every markdown text whose lines are headings, bullets
  that are not nested, paragraphs and blank lines, and whose line contents hold none of
  the characters "<", "&", carriage return and NUL (a carriage return at the end of a
  line is white space and no content), markdownToBlocks followed by htmlToMarkdown gives
  a markdown text that says the same: its lines that are not blank have the same
  classifications and the same contents, in the same order. Each of them is the normal
  line of its classification and content: the marker "# ", "## ", "### " or "- " (none for
  a paragraph) and the content without white space at its ends. So besides the number of
  blank lines only the form of a line may change: the bullet sign becomes "-", one space
  follows a marker, white space at the ends of a line is dropped.
\<close>

theorem C8_markdown_round_trip:
  assumes "in_scope markdown"
  shows "\<exists>out items. round_trip markdown = Some out \<and> line_items markdown = Some items
           \<and> line_items out = Some items
           \<and> nonblank_lines out = map normal_line items"
proof -
  let ?ls = "split_lines markdown"
  have all: "list_all (\<lambda>l. CHR 0x0A \<notin> set l \<and> line_in_scope l) ?ls"
    unfolding list_all_iff
  proof (intro ballI conjI)
    fix l assume l: "l \<in> set ?ls"
    show "CHR 0x0A \<notin> set l" by (rule lines_no_NL [OF l])
    show "line_in_scope l" using assms l by (simp add: in_scope_def list_all_iff)
  qed
  have "list_all (\<lambda>l. line_block l \<noteq> None) ?ls"
    unfolding list_all_iff
  proof
    fix l assume "l \<in> set ?ls"
    then have "line_in_scope l" using all by (simp add: list_all_iff)
    then show "line_block l \<noteq> None" by (rule line_in_scope_block) simp
  qed
  then obtain bs where bs: "those (map line_block ?ls) = Some bs"
    using those_map_Some by blast
  have rt: "round_trip markdown = Some (htmlToMarkdown bs)"
    by (simp add: round_trip_def markdownToBlocks_def bs)
  let ?raw = "blocks_markdown (\<lambda>l. 0) bs"
  obtain items where r: "those (map line_item (filter (\<lambda>l. trim l \<noteq> []) ?ls)) = Some items"
    "nonblank_lines ?raw = map normal_line items"
    "those (map line_item (map normal_line items)) = Some items"
    "list_all (\<lambda>K. trim K = K) (map normal_line items)"
    using raw_lines [OF all bs, of "\<lambda>l. 0"] by blast
  have items: "line_items markdown = Some items"
    using r(1) by (simp add: line_items_def nonblank_lines_def)
  have c: "nonblank_lines (collapse_newlines ?raw) = map normal_line items"
    by (simp only: nonblank_lines_collapse r(2))
  have "nonblank_lines (trim (collapse_newlines ?raw)) = nonblank_lines (collapse_newlines ?raw)"
    by (rule nonblank_trim_exact) (simp only: c r(4))
  then have out: "nonblank_lines (htmlToMarkdown bs) = map normal_line items"
    by (simp only: htmlToMarkdown_def c)
  have "line_items (htmlToMarkdown bs) = Some items"
    by (simp only: line_items_def out r(3))
  then show ?thesis using rt items out by blast
qed

theorem C8_markdown_round_trip_witness:
  "in_scope md_example
   \<and> round_trip md_example = Some md_example_out
   \<and> line_items md_example
       = Some [(Heading1, ''Title''), (Text, ''Hello  world''), (Bullet, ''a''), (Bullet, ''b''),
               (Heading2, ''x'')]
   \<and> line_items md_example_out
       = Some [(Heading1, ''Title''), (Text, ''Hello  world''), (Bullet, ''a''), (Bullet, ''b''),
               (Heading2, ''x'')]
   \<and> nonblank_lines md_example_out
       = [''# Title'', ''Hello  world'', ''- a'', ''- b'', ''## x'']"
proof -
  have i: "in_scope md_example" by code_simp
  have r: "round_trip md_example = Some md_example_out" by code_simp
  have a: "line_items md_example
       = Some [(Heading1, ''Title''), (Text, ''Hello  world''), (Bullet, ''a''), (Bullet, ''b''),
               (Heading2, ''x'')]" by code_simp
  have b: "line_items md_example_out
       = Some [(Heading1, ''Title''), (Text, ''Hello  world''), (Bullet, ''a''), (Bullet, ''b''),
               (Heading2, ''x'')]" by code_simp
  have n: "nonblank_lines md_example_out
       = [''# Title'', ''Hello  world'', ''- a'', ''- b'', ''## x'']" by code_simp
  from C8_markdown_round_trip [OF i] show ?thesis
    by (simp only: i r a b n simp_thms)
qed

text \<open>
  The claim as stated fails at the bullet line "* a": the text is in scope, its only line
  is not blank, and the round trip rewrites that line to "- a", so more than the number of
  blank lines has changed.
\<close>

theorem C8_bullet_sign_counterexample:
  "in_scope ''* a'' \<and> round_trip ''* a'' = Some ''- a''
   \<and> nonblank_lines ''* a'' = [''* a''] \<and> nonblank_lines ''- a'' = [''- a'']"
  by code_simp

end
